theory Spec2Isabelle
  imports Main "HOL-Library.Multiset" "HOL-Library.Sublist" "HOL-Library.Word"
begin

section \<open>JavaScript values\<close>

text \<open>
  The dashboard component works on values parsed from JSON responses. They are modelled
  by the datatype below. A string is a list of code units; a \<open>char\<close> stands for the code
  unit of the same number (U+0000 to U+00FF). A number is an integer from \<open>-2^53\<close> to
  \<open>2^53 - 1\<close>, the signed value of a word of 54 bits: these are Number values that
  JavaScript holds exactly and prints as plain decimal numerals. Other numbers (larger
  ones, fractions, NaN) are not represented. An object is the list of its own
  enumerable properties, in the order in which the engine enumerates them
  (\<open>Object.keys\<close>, \<open>Object.values\<close>, spread).
\<close>

datatype jsval =
    Undefined
  | Null
  | Bool bool
  | Num "54 word"
  | Str string
  | Arr "jsval list"
  | Obj "(string \<times> jsval) list"

datatype error = TypeError | RequestFailed

text \<open>Sequencing of computations that may throw.\<close>

definition bind_err :: "error + 'a \<Rightarrow> ('a \<Rightarrow> error + 'b) \<Rightarrow> error + 'b" where
  "bind_err m f = (case m of Inl e \<Rightarrow> Inl e | Inr v \<Rightarrow> f v)"

fun map_err :: "('a \<Rightarrow> error + 'b) \<Rightarrow> 'a list \<Rightarrow> error + 'b list" where
  "map_err f [] = Inr []"
| "map_err f (x # xs) =
     bind_err (f x) (\<lambda>y. bind_err (map_err f xs) (\<lambda>ys. Inr (y # ys)))"

text \<open>\<open>ToBoolean\<close>: what \<open>!v\<close>, \<open>v && ...\<close> and \<open>v || ...\<close> test.\<close>

fun truthy :: "jsval \<Rightarrow> bool" where
  "truthy Undefined = False"
| "truthy Null = False"
| "truthy (Bool b) = b"
| "truthy (Num n) = (n \<noteq> 0)"
| "truthy (Str s) = (s \<noteq> [])"
| "truthy (Arr xs) = True"
| "truthy (Obj ps) = True"

text \<open>\<open>a || b\<close> and \<open>a ?? b\<close> on values already computed.\<close>

definition js_or :: "jsval \<Rightarrow> jsval \<Rightarrow> jsval" where
  "js_or a b = (if truthy a then a else b)"

definition js_nullish :: "jsval \<Rightarrow> jsval \<Rightarrow> jsval" where
  "js_nullish a b = (if a = Null \<or> a = Undefined then b else a)"

text \<open>\<open>typeof v === "object"\<close>.\<close>

fun typeof_object :: "jsval \<Rightarrow> bool" where
  "typeof_object Null = True"
| "typeof_object (Arr xs) = True"
| "typeof_object (Obj ps) = True"
| "typeof_object v = False"

subsection \<open>Decimal keys\<close>

definition digit_char :: "nat \<Rightarrow> char" where
  "digit_char d = char_of (48 + d)"

fun show_nat :: "nat \<Rightarrow> string" where
  "show_nat n = (if n < 10 then [digit_char n] else show_nat (n div 10) @ [digit_char (n mod 10)])"

declare show_nat.simps [simp del]

definition show_int :: "int \<Rightarrow> string" where
  "show_int i = (if i < 0 then CHR ''-'' # show_nat (nat (- i)) else show_nat (nat i))"

definition is_digit :: "char \<Rightarrow> bool" where
  "is_digit c = (48 \<le> (of_char c :: nat) \<and> (of_char c :: nat) \<le> 57)"

definition parse_nat :: "string \<Rightarrow> nat" where
  "parse_nat s = foldl (\<lambda>acc c. 10 * acc + ((of_char c :: nat) - 48)) 0 s"

text \<open>
  An array index is a canonical decimal numeral below \<open>2^32 - 1\<close>: property keys of this
  form are enumerated first, in ascending numeric order.
\<close>

definition array_index :: "string \<Rightarrow> nat option" where
  "array_index k =
     (if k \<noteq> [] \<and> list_all is_digit k \<and> (k = ''0'' \<or> hd k \<noteq> CHR ''0'') \<and> parse_nat k < 4294967295
      then Some (parse_nat k) else None)"

subsection \<open>Properties\<close>

fun enumerate_from :: "nat \<Rightarrow> jsval list \<Rightarrow> (string \<times> jsval) list" where
  "enumerate_from i [] = []"
| "enumerate_from i (x # xs) = (show_nat i, x) # enumerate_from (Suc i) xs"

text \<open>The own enumerable properties of a value, as a spread \<open>{...v}\<close> copies them.\<close>

fun own_props :: "jsval \<Rightarrow> (string \<times> jsval) list" where
  "own_props (Obj ps) = ps"
| "own_props (Arr xs) = enumerate_from 0 xs"
| "own_props (Str s) = enumerate_from 0 (map (\<lambda>c. Str [c]) s)"
| "own_props v = []"

text \<open>
  \<open>Object.values(v)\<close>: it throws on \<open>null\<close> and \<open>undefined\<close>, and boxes the other
  primitives.
\<close>

definition object_values :: "jsval \<Rightarrow> error + jsval list" where
  "object_values v =
     (if v = Null \<or> v = Undefined then Inl TypeError else Inr (map snd (own_props v)))"

text \<open>
  Reading a property \<open>v.k\<close>. It throws on \<open>null\<close> and \<open>undefined\<close>. Only own properties
  are represented: none of the keys the component reads from a JSON value (\<open>_id\<close>,
  \<open>id\<close>, \<open>status\<close>, \<open>case\<close>, \<open>data\<close>, \<open>result\<close>, \<open>payload\<close>) is defined on a
  built-in prototype.
\<close>

definition lookup :: "(string \<times> jsval) list \<Rightarrow> string \<Rightarrow> jsval" where
  "lookup ps k = (case map_of ps k of Some v \<Rightarrow> v | None \<Rightarrow> Undefined)"

definition nth_or_undefined :: "jsval list \<Rightarrow> string \<Rightarrow> jsval" where
  "nth_or_undefined xs k =
     (case array_index k of
        Some i \<Rightarrow> if i < length xs then xs ! i else Undefined
      | None \<Rightarrow> Undefined)"

fun own_prop :: "jsval \<Rightarrow> string \<Rightarrow> jsval" where
  "own_prop (Obj ps) k = lookup ps k"
| "own_prop (Arr xs) k =
     (if k = ''length'' then Num (of_nat (length xs)) else nth_or_undefined xs k)"
| "own_prop (Str s) k =
     (if k = ''length'' then Num (of_nat (length s)) else nth_or_undefined (map (\<lambda>c. Str [c]) s) k)"
| "own_prop v k = Undefined"

definition get_prop :: "jsval \<Rightarrow> string \<Rightarrow> error + jsval" where
  "get_prop v k = (if v = Null \<or> v = Undefined then Inl TypeError else Inr (own_prop v k))"

subsection \<open>Strings\<close>

text \<open>\<open>String.prototype.toLowerCase\<close> on code units below 256.\<close>

definition lower_char :: "char \<Rightarrow> char" where
  "lower_char c =
     (let n = (of_char c :: nat)
      in if (65 \<le> n \<and> n \<le> 90) \<or> (192 \<le> n \<and> n \<le> 222 \<and> n \<noteq> 215)
         then char_of (n + 32) else c)"

definition toLowerCase :: "string \<Rightarrow> string" where
  "toLowerCase s = map lower_char s"

text \<open>The class \<open>\s\<close> of regular expressions on code units below 256.\<close>

definition is_space :: "char \<Rightarrow> bool" where
  "is_space c = ((of_char c :: nat) \<in> {9, 10, 11, 12, 13, 32, 160})"

text \<open>\<open>s.replace(/\s+/g, "")\<close>.\<close>

definition strip_spaces :: "string \<Rightarrow> string" where
  "strip_spaces s = filter (\<lambda>c. \<not> is_space c) s"

section \<open>Statistics aggregator\<close>

text \<open>
  The object \<open>count\<close> of \<open>stats\<close>. It starts with eight own number properties:
  \<open>total\<close> and the seven buckets. The lookup \<open>count[key]\<close> finds each of the eight, and
  also what \<open>Object.prototype\<close> defines: of those names only \<open>constructor\<close> and
  \<open>__proto__\<close> are unchanged by \<open>toLowerCase\<close>, so only they can be a key. The
  increment \<open>count[key]++\<close> on the inherited \<open>constructor\<close> stores \<open>NaN\<close> in a new own
  property (the field \<open>constructor_nan\<close>); on \<open>__proto__\<close> it stores nothing.
\<close>

record count =
  total :: nat
  pending :: nat
  assigned :: nat
  inprogress :: nat
  followup :: nat
  closed :: nat
  rejected :: nat
  unknown :: nat
  constructor_nan :: bool

definition count0 :: count where
  "count0 = \<lparr>total = 0, pending = 0, assigned = 0, inprogress = 0, followup = 0,
             closed = 0, rejected = 0, unknown = 0, constructor_nan = False\<rparr>"

text \<open>\<open>(c.status || "unknown").toLowerCase().replace(/\s+/g, "")\<close>\<close>

definition status_key :: "jsval \<Rightarrow> error + string" where
  "status_key c =
     bind_err (get_prop c ''status'') (\<lambda>st.
       case js_or st (Str ''unknown'') of
         Str s \<Rightarrow> Inr (strip_spaces (toLowerCase s))
       | _ \<Rightarrow> Inl TypeError)"

text \<open>\<open>if (count[key] !== undefined) count[key]++; else count.unknown++;\<close>\<close>

definition bump :: "string \<Rightarrow> count \<Rightarrow> count" where
  "bump key cnt =
     (if key = ''total'' then cnt\<lparr>total := total cnt + 1\<rparr>
      else if key = ''pending'' then cnt\<lparr>pending := pending cnt + 1\<rparr>
      else if key = ''assigned'' then cnt\<lparr>assigned := assigned cnt + 1\<rparr>
      else if key = ''inprogress'' then cnt\<lparr>inprogress := inprogress cnt + 1\<rparr>
      else if key = ''followup'' then cnt\<lparr>followup := followup cnt + 1\<rparr>
      else if key = ''closed'' then cnt\<lparr>closed := closed cnt + 1\<rparr>
      else if key = ''rejected'' then cnt\<lparr>rejected := rejected cnt + 1\<rparr>
      else if key = ''unknown'' then cnt\<lparr>unknown := unknown cnt + 1\<rparr>
      else if key = ''constructor'' then cnt\<lparr>constructor_nan := True\<rparr>
      else if key = ''__proto__'' then cnt
      else cnt\<lparr>unknown := unknown cnt + 1\<rparr>)"

text \<open>One round of \<open>cases.forEach\<close>.\<close>

definition stats_step :: "count \<Rightarrow> jsval \<Rightarrow> error + count" where
  "stats_step cnt c =
     (let cnt1 = cnt\<lparr>total := total cnt + 1\<rparr>
      in bind_err (status_key c) (\<lambda>key. Inr (bump key cnt1)))"

fun stats_loop :: "count \<Rightarrow> jsval list \<Rightarrow> error + count" where
  "stats_loop cnt [] = Inr cnt"
| "stats_loop cnt (c # cs) = bind_err (stats_step cnt c) (\<lambda>cnt'. stats_loop cnt' cs)"

definition stats :: "jsval list \<Rightarrow> error + count" where
  "stats cases = stats_loop count0 cases"

text \<open>The sum of the seven status buckets of a snapshot.\<close>

definition bucket_sum :: "count \<Rightarrow> nat" where
  "bucket_sum cnt =
     pending cnt + assigned cnt + inprogress cnt + followup cnt + closed cnt + rejected cnt
     + unknown cnt"

section \<open>Extraction of the updated case from a response\<close>

text \<open>The value of \<open>v._id || v.id\<close>.\<close>

definition id_of :: "jsval \<Rightarrow> error + jsval" where
  "id_of v =
     bind_err (get_prop v ''_id'') (\<lambda>a.
       if truthy a then Inr a else get_prop v ''id'')"

text \<open>
  The loop over the wrapper keys:
  \<open>if (data[key] && (data[key]._id || data[key].id)) return data[key];\<close>
\<close>

fun probe_keys :: "jsval \<Rightarrow> string list \<Rightarrow> error + jsval option" where
  "probe_keys data [] = Inr None"
| "probe_keys data (key # keys) =
     bind_err (get_prop data key) (\<lambda>v.
       if truthy v
       then bind_err (id_of v) (\<lambda>i. if truthy i then Inr (Some v) else probe_keys data keys)
       else probe_keys data keys)"

text \<open>\<open>Array.prototype.find\<close> with a callback that may throw.\<close>

fun find_err :: "('a \<Rightarrow> error + bool) \<Rightarrow> 'a list \<Rightarrow> error + 'a option" where
  "find_err p [] = Inr None"
| "find_err p (x # xs) =
     bind_err (p x) (\<lambda>b. if b then Inr (Some x) else find_err p xs)"

definition or_undefined :: "jsval option \<Rightarrow> jsval" where
  "or_undefined r = (case r of Some v \<Rightarrow> v | None \<Rightarrow> Undefined)"

text \<open>The callback \<open>(v) => v && typeof v === "object" && (v._id || v.id)\<close>.\<close>

definition nested_pred :: "jsval \<Rightarrow> error + bool" where
  "nested_pred v =
     (if truthy v \<and> typeof_object v then bind_err (id_of v) (\<lambda>i. Inr (truthy i))
      else Inr False)"

definition wrapper_keys :: "string list" where
  "wrapper_keys = [''case'', ''data'', ''result'', ''payload'']"

definition extractUpdatedCase :: "jsval \<Rightarrow> error + jsval" where
  "extractUpdatedCase data =
     (if \<not> truthy data then Inr Null
      else bind_err (id_of data) (\<lambda>i.
        if truthy i then Inr data
        else bind_err (probe_keys data wrapper_keys) (\<lambda>r.
          case r of
            Some v \<Rightarrow> Inr v
          | None \<Rightarrow>
              bind_err (object_values data) (\<lambda>vs.
                bind_err (find_err nested_pred vs) (\<lambda>nested.
                  Inr (js_or (or_undefined nested) Null))))))"

section \<open>Object spread and string conversion\<close>

text \<open>
  Defining the property \<open>k\<close> on an object: an existing property keeps its place; a new
  array index goes before the first key that is no smaller array index; any other new
  key goes last.
\<close>

fun insert_index :: "nat \<Rightarrow> string \<Rightarrow> jsval \<Rightarrow> (string \<times> jsval) list \<Rightarrow> (string \<times> jsval) list" where
  "insert_index i k v [] = [(k, v)]"
| "insert_index i k v (p # ps) =
     (case array_index (fst p) of
        None \<Rightarrow> (k, v) # p # ps
      | Some j \<Rightarrow> if i < j then (k, v) # p # ps else p # insert_index i k v ps)"

definition define_prop :: "string \<Rightarrow> jsval \<Rightarrow> (string \<times> jsval) list \<Rightarrow> (string \<times> jsval) list" where
  "define_prop k v ps =
     (if k \<in> set (map fst ps) then map (\<lambda>p. if fst p = k then (k, v) else p) ps
      else case array_index k of
             None \<Rightarrow> ps @ [(k, v)]
           | Some i \<Rightarrow> insert_index i k v ps)"

text \<open>\<open>{...a, ...b}\<close>, given the properties of \<open>a\<close> and of \<open>b\<close>.\<close>

definition spread_over :: "(string \<times> jsval) list \<Rightarrow> (string \<times> jsval) list \<Rightarrow> (string \<times> jsval) list" where
  "spread_over ps qs = foldl (\<lambda>acc q. define_prop (fst q) (snd q) acc) ps qs"

text \<open>
  \<open>String(v)\<close>. A number of the model is below \<open>10^21\<close> in absolute value and exact, so
  its string is its decimal numeral. An object parsed from JSON has no callable own
  \<open>toString\<close>: when it has an own property of that name the conversion throws.
\<close>

fun to_string :: "jsval \<Rightarrow> error + string"
  and join_elems :: "jsval list \<Rightarrow> error + string" where
  "to_string Undefined = Inr ''undefined''"
| "to_string Null = Inr ''null''"
| "to_string (Bool b) = Inr (if b then ''true'' else ''false'')"
| "to_string (Num n) = Inr (show_int (sint n))"
| "to_string (Str s) = Inr s"
| "to_string (Arr xs) = join_elems xs"
| "to_string (Obj ps) =
     (if ''toString'' \<in> set (map fst ps) then Inl TypeError else Inr ''[object Object]'')"
| "join_elems [] = Inr []"
| "join_elems (x # xs) =
     bind_err (if x = Null \<or> x = Undefined then Inr [] else to_string x) (\<lambda>s.
       if xs = [] then Inr s
       else bind_err (join_elems xs) (\<lambda>t. Inr (s @ '','' @ t)))"

section \<open>Optimistic update controller\<close>

text \<open>
  The three updaters that \<open>handleUpdateStatus\<close> hands to \<open>setCases\<close>, and what each
  computes from the previous collection.
\<close>

datatype cases_update =
    Optimistic string jsval
  | Merged jsval jsval
  | Replaced "jsval list"

text \<open>\<open>prev.map((c) => (c._id === caseId ? { ...c, status: newStatus } : c))\<close>\<close>

definition optimistic_case :: "string \<Rightarrow> jsval \<Rightarrow> jsval \<Rightarrow> error + jsval" where
  "optimistic_case caseId newStatus c =
     bind_err (get_prop c ''_id'') (\<lambda>i.
       Inr (if i = Str caseId then Obj (define_prop ''status'' newStatus (own_props c)) else c))"

text \<open>\<open>prev.map((c) => String(c._id) === String(id) ? { ...c, ...updated } : c)\<close>\<close>

definition merged_case :: "jsval \<Rightarrow> jsval \<Rightarrow> jsval \<Rightarrow> error + jsval" where
  "merged_case ident updated c =
     bind_err (get_prop c ''_id'') (\<lambda>i.
       bind_err (to_string i) (\<lambda>s.
         bind_err (to_string ident) (\<lambda>t.
           Inr (if s = t then Obj (spread_over (own_props c) (own_props updated)) else c))))"

fun apply_cases_update :: "cases_update \<Rightarrow> jsval list \<Rightarrow> error + jsval list" where
  "apply_cases_update (Optimistic caseId newStatus) prev =
     map_err (optimistic_case caseId newStatus) prev"
| "apply_cases_update (Merged ident updated) prev = map_err (merged_case ident updated) prev"
| "apply_cases_update (Replaced cs) prev = Inr cs"

text \<open>
  What the handler does to the world, in program order: requests to update the
  component state, calls of the remote service, and messages.
\<close>

datatype effect =
    SetUpdatingCaseId "string option"
  | SetCases cases_update
  | SetSelectedCase jsval
  | ApiPut string jsval
  | ApiGet
  | ConsoleWarn
  | ConsoleError
  | Alert

type_synonym 'a action = "effect list \<times> (error + 'a)"

definition emit :: "effect \<Rightarrow> unit action" where
  "emit e = ([e], Inr ())"

definition lift :: "error + 'a \<Rightarrow> 'a action" where
  "lift r = ([], r)"

definition bind_act :: "'a action \<Rightarrow> ('a \<Rightarrow> 'b action) \<Rightarrow> 'b action" where
  "bind_act m f =
     (case snd m of
        Inl e \<Rightarrow> (fst m, Inl e)
      | Inr v \<Rightarrow> (fst m @ fst (f v), snd (f v)))"

definition try_catch :: "'a action \<Rightarrow> (error \<Rightarrow> 'a action) \<Rightarrow> 'a action" where
  "try_catch m h =
     (case snd m of
        Inl e \<Rightarrow> (fst m @ fst (h e), snd (h e))
      | Inr v \<Rightarrow> m)"

definition try_finally :: "'a action \<Rightarrow> unit action \<Rightarrow> 'a action" where
  "try_finally m f =
     (case snd f of
        Inl e \<Rightarrow> (fst m @ fst f, Inl e)
      | Inr u \<Rightarrow> (fst m @ fst f, snd m))"

text \<open>\<open>Array.isArray(d) ? d : []\<close>\<close>

definition array_or_empty :: "jsval \<Rightarrow> jsval list" where
  "array_or_empty d = (case d of Arr xs \<Rightarrow> xs | _ \<Rightarrow> [])"

text \<open>The condition \<open>updated && (updated._id || updated.id)\<close>.\<close>

definition and_id :: "jsval \<Rightarrow> error + jsval" where
  "and_id v = (if truthy v then id_of v else Inr v)"

text \<open>The body of the \<open>try\<close> block after the reply to the update call has arrived.\<close>

definition on_reply :: "jsval \<Rightarrow> jsval \<Rightarrow> unit action" where
  "on_reply selected data =
     bind_act (lift (extractUpdatedCase data)) (\<lambda>ex.
       let updated = js_nullish ex data in
       bind_act (lift (and_id updated)) (\<lambda>c.
         if truthy c then
           bind_act (lift (id_of updated)) (\<lambda>ident.
             bind_act (emit (SetCases (Merged ident updated))) (\<lambda>_.
               bind_act (lift (if truthy selected
                               then bind_err (get_prop selected ''_id'') (\<lambda>i.
                                      bind_err (to_string i) (\<lambda>s.
                                        bind_err (to_string ident) (\<lambda>t. Inr (s = t))))
                               else Inr False)) (\<lambda>same.
                 if same then emit (SetSelectedCase updated) else lift (Inr ()))))
         else emit ConsoleWarn))"

text \<open>The \<open>catch\<close> block.\<close>

definition on_failure :: "error + jsval \<Rightarrow> unit action" where
  "on_failure get_reply =
     bind_act (emit ConsoleError) (\<lambda>_.
       bind_act
         (try_catch
            (bind_act (emit ApiGet) (\<lambda>_.
               bind_act (lift get_reply) (\<lambda>d.
                 emit (SetCases (Replaced (array_or_empty d))))))
            (\<lambda>reErr. emit ConsoleError))
         (\<lambda>_. emit Alert))"

text \<open>
  \<open>handleUpdateStatus\<close>. The replies of the remote service to the update call and to the
  reload call are arguments: \<open>Inl\<close> is a rejected call, \<open>Inr\<close> carries \<open>res.data\<close>.
  \<open>selected\<close> is the value of \<open>selectedCase\<close> that the callback has captured. An
  identifier is a string; \<open>None\<close> is an identifier that is \<open>undefined\<close> or \<open>null\<close>.
\<close>

definition handleUpdateStatus ::
  "jsval \<Rightarrow> string option \<Rightarrow> jsval \<Rightarrow> error + jsval \<Rightarrow> error + jsval \<Rightarrow> unit action" where
  "handleUpdateStatus selected caseId newStatus put_reply get_reply =
     (case caseId of
        None \<Rightarrow> lift (Inr ())
      | Some cid \<Rightarrow>
          if cid = [] then lift (Inr ())
          else
            bind_act (emit (SetUpdatingCaseId (Some cid))) (\<lambda>_.
              bind_act (emit (SetCases (Optimistic cid newStatus))) (\<lambda>_.
                try_finally
                  (try_catch
                     (bind_act (emit (ApiPut cid newStatus)) (\<lambda>_.
                        bind_act (lift put_reply) (\<lambda>data. on_reply selected data)))
                     (\<lambda>err. on_failure get_reply))
                  (emit (SetUpdatingCaseId None)))))"

section \<open>Recent cases\<close>

text \<open>
  The time value in milliseconds of \<open>new Date(v)\<close>; \<open>None\<close> is the \<open>NaN\<close> of an invalid
  date. \<open>Date.parse\<close> on strings is the argument \<open>parse\<close>. A missing \<open>createdAt\<close> is
  \<open>new Date(undefined)\<close>, an invalid date. An array or object is converted to a string
  first.
\<close>

definition time_clip :: "int \<Rightarrow> int option" where
  "time_clip t = (if - 8640000000000000 \<le> t \<and> t \<le> 8640000000000000 then Some t else None)"

fun date_value :: "(string \<Rightarrow> int option) \<Rightarrow> jsval \<Rightarrow> error + int option" where
  "date_value parse Undefined = Inr None"
| "date_value parse Null = Inr (Some 0)"
| "date_value parse (Bool b) = Inr (Some (if b then 1 else 0))"
| "date_value parse (Num n) = Inr (time_clip (sint n))"
| "date_value parse (Str s) = Inr (parse s)"
| "date_value parse v = bind_err (to_string v) (\<lambda>s. Inr (parse s))"

text \<open>\<open>new Date(c.createdAt)\<close> for an element \<open>c\<close> of the collection.\<close>

definition created_time :: "(string \<Rightarrow> int option) \<Rightarrow> jsval \<Rightarrow> error + int option" where
  "created_time parse c = bind_err (get_prop c ''createdAt'') (date_value parse)"

text \<open>The difference \<open>x - y\<close> of two time values: \<open>NaN\<close> when one of them is.\<close>

definition js_minus :: "int option \<Rightarrow> int option \<Rightarrow> int option" where
  "js_minus x y = (case x of None \<Rightarrow> None | Some a \<Rightarrow> (case y of None \<Rightarrow> None | Some b \<Rightarrow> Some (a - b)))"

text \<open>The comparator \<open>(a, b) => new Date(b.createdAt) - new Date(a.createdAt)\<close>.\<close>

definition compare_created :: "(string \<Rightarrow> int option) \<Rightarrow> jsval \<Rightarrow> jsval \<Rightarrow> error + int option" where
  "compare_created parse a b =
     bind_err (created_time parse b) (\<lambda>tb.
       bind_err (created_time parse a) (\<lambda>ta. Inr (js_minus tb ta)))"

text \<open>
  \<open>Array.prototype.sort\<close> is stable. With a comparator that orders the elements
  consistently its result is the one of the insertion sort below: an element goes
  before the first element that the comparator does not put before it.
\<close>

fun insert_by :: "('a \<Rightarrow> 'a \<Rightarrow> int) \<Rightarrow> 'a \<Rightarrow> 'a list \<Rightarrow> 'a list" where
  "insert_by cmp x [] = [x]"
| "insert_by cmp x (y # ys) =
     (if cmp x y \<le> 0 then x # y # ys else y # insert_by cmp x ys)"

definition sort_by :: "('a \<Rightarrow> 'a \<Rightarrow> int) \<Rightarrow> 'a list \<Rightarrow> 'a list" where
  "sort_by cmp xs = foldr (insert_by cmp) xs []"

text \<open>
  What a call returns: it throws, it returns a value, or it returns a list taken from
  some permutation of the given list, which one being left to the implementation.
\<close>

datatype 'a outcome = Throws error | Returns 'a | AnyOrder 'a

text \<open>
  \<open>[...cases].sort(comparator)\<close> with the comparator above. The sort puts \<open>undefined\<close>
  elements last and never passes them to the comparator. With fewer than two other
  elements it compares nothing. Otherwise it compares every element at least once,
  so it throws when the creation time of an element cannot be read. When some
  element has an invalid date the comparator yields \<open>NaN\<close> and is not a consistent
  comparator, and ECMAScript leaves the order to the implementation. When every
  element has a valid date the elements are paired with their time values and
  sorted, stably, by the difference that the comparator computes.
\<close>

definition sort_created :: "(string \<Rightarrow> int option) \<Rightarrow> jsval list \<Rightarrow> jsval list outcome" where
  "sort_created parse xs =
     (let ds = filter (\<lambda>c. c \<noteq> Undefined) xs; us = filter (\<lambda>c. c = Undefined) xs
      in if length ds < 2 then Returns (ds @ us)
         else case map_err (created_time parse) ds of
                Inl e \<Rightarrow> Throws e
              | Inr ts \<Rightarrow>
                  (case those ts of
                     None \<Rightarrow> AnyOrder xs
                   | Some vs \<Rightarrow>
                       Returns (map fst (sort_by (\<lambda>a b. snd b - snd a) (zip ds vs)) @ us)))"

text \<open>
  \<open>[...cases].sort(...).slice(0, 6)\<close>. The outcome \<open>AnyOrder xs\<close> stands for the first six
  elements of some permutation of \<open>xs\<close>.
\<close>

definition recentCases :: "(string \<Rightarrow> int option) \<Rightarrow> jsval list \<Rightarrow> jsval list outcome" where
  "recentCases parse cases =
     (case sort_created parse cases of
        Throws e \<Rightarrow> Throws e
      | Returns ys \<Rightarrow> Returns (take 6 ys)
      | AnyOrder xs \<Rightarrow> AnyOrder xs)"

text \<open>The lists that \<open>recentCases\<close> may return, given its outcome.\<close>

fun taken_from :: "'a list \<Rightarrow> 'a list \<Rightarrow> bool" where
  "taken_from [] ys = True"
| "taken_from (x # xs) ys = (x \<in> set ys \<and> taken_from xs (remove1 x ys))"

fun may_return :: "jsval list outcome \<Rightarrow> jsval list \<Rightarrow> bool" where
  "may_return (Throws e) r = False"
| "may_return (Returns rs) r = (r = rs)"
| "may_return (AnyOrder xs) r = (length r = min 6 (length xs) \<and> taken_from r xs)"

text \<open>
  \<open>Date.parse\<close> on the two time stamps of the example that the claim on recent cases
  uses; other strings do not occur there.
\<close>

definition sample_parse :: "string \<Rightarrow> int option" where
  "sample_parse s =
     (if s = ''2024-01-01T00:00:00.000Z'' then Some 1704067200000
      else if s = ''2024-01-02T00:00:00.000Z'' then Some 1704153600000
      else None)"

section \<open>Doctor lookup\<close>

text \<open>The callback \<open>(d) => d._id === assignedDoctorId || d.id === assignedDoctorId\<close>.\<close>

definition doctor_matches :: "string \<Rightarrow> jsval \<Rightarrow> error + bool" where
  "doctor_matches ref d =
     bind_err (get_prop d ''_id'') (\<lambda>a.
       if a = Str ref then Inr True
       else bind_err (get_prop d ''id'') (\<lambda>b. Inr (b = Str ref)))"

definition placeholder :: jsval where
  "placeholder = Obj [(''name'', Str ''Doctor''), (''specialization'', Str [])]"

definition getAssignedDoctor :: "jsval list \<Rightarrow> jsval \<Rightarrow> error + jsval" where
  "getAssignedDoctor doctors assignedDoctorId =
     (if \<not> truthy assignedDoctorId then Inr Null
      else case assignedDoctorId of
             Str ref \<Rightarrow>
               bind_err (find_err (doctor_matches ref) doctors) (\<lambda>found.
                 Inr (js_or (or_undefined found) placeholder))
           | _ \<Rightarrow> Inr assignedDoctorId)"

section \<open>Status tab from the query parameter\<close>

definition STATUSES :: "string list" where
  "STATUSES = [''Pending'', ''Assigned'', ''In Progress'', ''Follow Up'', ''Closed'']"

text \<open>
  The effect that follows \<open>searchParams\<close>: the result is the argument of \<open>setTab\<close>.
  \<open>searchParams.get("status")\<close> is a string, or \<open>null\<close> (here \<open>None\<close>) when the parameter
  is not in the URL.
\<close>

definition sync_tab :: "string option \<Rightarrow> string" where
  "sync_tab statusParam =
     (case statusParam of
        None \<Rightarrow> ''All''
      | Some p \<Rightarrow>
          if p = [] then ''All''
          else (case find (\<lambda>s. toLowerCase s = toLowerCase p) STATUSES of
                  Some matched \<Rightarrow> if matched \<noteq> [] then matched else ''All''
                | None \<Rightarrow> ''All''))"

section \<open>Component state\<close>

text \<open>The component state, and the effects applied to it one after the other.\<close>

record state =
  cases :: "jsval list"
  selectedCase :: jsval
  updatingCaseId :: "string option"

fun apply_effect :: "effect \<Rightarrow> state \<Rightarrow> error + state" where
  "apply_effect (SetUpdatingCaseId i) st = Inr (st\<lparr>updatingCaseId := i\<rparr>)"
| "apply_effect (SetCases u) st =
     bind_err (apply_cases_update u (cases st)) (\<lambda>cs. Inr (st\<lparr>cases := cs\<rparr>))"
| "apply_effect (SetSelectedCase updated) st =
     Inr (st\<lparr>selectedCase := Obj (spread_over (own_props (selectedCase st)) (own_props updated))\<rparr>)"
| "apply_effect e st = Inr st"

fun run_effects :: "effect list \<Rightarrow> state \<Rightarrow> error + state" where
  "run_effects [] st = Inr st"
| "run_effects (e # es) st = bind_err (apply_effect e st) (run_effects es)"

text \<open>
  React does not change the state when a setter is called: it queues the update and
  applies the queue when the running stretch of the handler ends, that is when the
  handler suspends on a remote call or returns. The updaters are applied in the
  order of the calls, so \<open>run_effects\<close> gives the state after the handler.
  \<open>first_call es q st\<close> follows the effects \<open>es\<close> from the state \<open>st\<close> with the queue
  \<open>q\<close> up to the first remote call and gives the call, the state at the moment the
  call is issued, and the state once the handler has suspended on it.
\<close>

fun is_update :: "effect \<Rightarrow> bool" where
  "is_update (SetUpdatingCaseId i) = True"
| "is_update (SetCases u) = True"
| "is_update (SetSelectedCase v) = True"
| "is_update e = False"

fun is_call :: "effect \<Rightarrow> bool" where
  "is_call (ApiPut i v) = True"
| "is_call ApiGet = True"
| "is_call e = False"

fun first_call :: "effect list \<Rightarrow> effect list \<Rightarrow> state \<Rightarrow> error + (effect \<times> state \<times> state) option" where
  "first_call [] q st = Inr None"
| "first_call (e # es) q st =
     (if is_call e then bind_err (run_effects q st) (\<lambda>st'. Inr (Some (e, st, st')))
      else if is_update e then first_call es (q @ [e]) st
      else first_call es q st)"

text \<open>The state after the handler when the queue is applied at every remote call.\<close>

fun batched :: "effect list \<Rightarrow> effect list \<Rightarrow> state \<Rightarrow> error + state" where
  "batched [] q st = run_effects q st"
| "batched (e # es) q st =
     (if is_call e then bind_err (run_effects q st) (batched es [])
      else if is_update e then batched es (q @ [e]) st
      else batched es q st)"

section \<open>Notions used in the statements\<close>

text \<open>
  A value carries an identifier when the test \<open>(v._id || v.id)\<close> of the code accepts
  it: one of the two properties holds a truthy value.
\<close>

definition carries_id :: "jsval \<Rightarrow> bool" where
  "carries_id v = (truthy (own_prop v ''_id'') \<or> truthy (own_prop v ''id''))"

text \<open>A value on which a property can be read: neither \<open>null\<close> nor \<open>undefined\<close>.\<close>

definition defined :: "jsval \<Rightarrow> bool" where
  "defined v = (v \<noteq> Null \<and> v \<noteq> Undefined)"

text \<open>A doctor record whose \<open>_id\<close> or \<open>id\<close> is the string \<open>s\<close>.\<close>

definition matches_id :: "string \<Rightarrow> jsval \<Rightarrow> bool" where
  "matches_id s d = (own_prop d ''_id'' = Str s \<or> own_prop d ''id'' = Str s)"

text \<open>
  The extraction as the specification words it: the body itself, else the value under
  the first wrapper key that carries an identifier, else the first object-shaped own
  value that carries one, else no result.
\<close>

definition extract_spec :: "jsval \<Rightarrow> jsval" where
  "extract_spec data =
     (if carries_id data then data
      else case find (\<lambda>k. carries_id (own_prop data k)) wrapper_keys of
             Some k \<Rightarrow> own_prop data k
           | None \<Rightarrow>
               (case find (\<lambda>v. typeof_object v \<and> carries_id v) (map snd (own_props data)) of
                  Some v \<Rightarrow> v
                | None \<Rightarrow> Null))"

text \<open>
  The creation time of a record with a valid date, and the six latest elements of a
  collection by a time function \<open>f\<close>: the stable sort, newest first, cut after six.
\<close>

definition time_of :: "(string \<Rightarrow> int option) \<Rightarrow> jsval \<Rightarrow> int" where
  "time_of parse c = (case created_time parse c of Inr (Some t) \<Rightarrow> t | _ \<Rightarrow> 0)"

definition latest_six :: "('a \<Rightarrow> int) \<Rightarrow> 'a list \<Rightarrow> 'a list" where
  "latest_six f cs = take 6 (sort_by (\<lambda>a b. f b - f a) cs)"

text \<open>The record that the optimistic rewrite puts in the place of \<open>c\<close>.\<close>

definition optimistic_record :: "string \<Rightarrow> jsval \<Rightarrow> jsval \<Rightarrow> jsval" where
  "optimistic_record cid ns c =
     (if own_prop c ''_id'' = Str cid then Obj (define_prop ''status'' ns (own_props c)) else c)"

section \<open>Basic facts\<close>

lemma bind_err_Inr [simp]: "bind_err (Inr v) f = f v"
  by (simp add: bind_err_def)

lemma bind_err_Inl [simp]: "bind_err (Inl e) f = Inl e"
  by (simp add: bind_err_def)

lemma map_err_pure: "(\<And>x. x \<in> set xs \<Longrightarrow> f x = Inr (g x)) \<Longrightarrow> map_err f xs = Inr (map g xs)"
  by (induction xs) simp_all

lemma find_err_pure_on:
  "(\<And>x. x \<in> set xs \<Longrightarrow> p x = Inr (q x)) \<Longrightarrow> find_err p xs = Inr (find q xs)"
  by (induction xs) simp_all

lemma get_prop_defined: "v \<noteq> Null \<Longrightarrow> v \<noteq> Undefined \<Longrightarrow> get_prop v k = Inr (own_prop v k)"
  by (simp add: get_prop_def)

lemma truthy_defined: "truthy v \<Longrightarrow> v \<noteq> Null \<and> v \<noteq> Undefined"
  by (cases v) simp_all

lemma truthy_js_or [simp]: "truthy (js_or a b) = (truthy a \<or> truthy b)"
  by (simp add: js_or_def)

lemma array_index_id [simp]: "array_index ''_id'' = None" "array_index ''id'' = None"
  by (simp_all add: array_index_def is_digit_def)

lemma array_index_status [simp]: "array_index ''status'' = None"
  by (simp add: array_index_def is_digit_def)

lemma own_prop_id_cases:
  "truthy (own_prop v ''_id'') \<or> truthy (own_prop v ''id'') \<Longrightarrow> \<exists>ps. v = Obj ps"
  by (cases v) (simp_all add: nth_or_undefined_def)

lemma carries_id_object: "carries_id v \<Longrightarrow> \<exists>ps. v = Obj ps"
  using own_prop_id_cases [of v] by (simp add: carries_id_def)

lemma carries_id_truthy: "carries_id v \<Longrightarrow> truthy v"
  using carries_id_object [of v] by auto

lemma id_of_defined:
  "v \<noteq> Null \<Longrightarrow> v \<noteq> Undefined \<Longrightarrow> id_of v = Inr (js_or (own_prop v ''_id'') (own_prop v ''id''))"
  by (simp add: id_of_def get_prop_defined js_or_def)

lemma own_prop_id_Str: "own_prop c ''_id'' = Str s \<Longrightarrow> \<exists>ps. c = Obj ps"
  by (cases c) (simp_all add: nth_or_undefined_def)

lemma own_prop_id2_Str: "own_prop c ''id'' = Str s \<Longrightarrow> \<exists>ps. c = Obj ps"
  by (cases c) (simp_all add: nth_or_undefined_def)

section \<open>The extraction computes what the specification words\<close>

lemma probe_keys_find:
  "data \<noteq> Null \<Longrightarrow> data \<noteq> Undefined \<Longrightarrow>
   probe_keys data ks = Inr (map_option (own_prop data) (find (\<lambda>k. carries_id (own_prop data k)) ks))"
proof (induction ks)
  case Nil
  then show ?case by simp
next
  case (Cons k ks)
  show ?case
  proof (cases "truthy (own_prop data k)")
    case True
    then have "id_of (own_prop data k) =
        Inr (js_or (own_prop (own_prop data k) ''_id'') (own_prop (own_prop data k) ''id''))"
      using truthy_defined id_of_defined by blast
    with True Cons show ?thesis
      by (simp add: get_prop_defined carries_id_def)
  next
    case False
    then have "\<not> carries_id (own_prop data k)"
      using carries_id_truthy by blast
    with False Cons show ?thesis
      by (simp add: get_prop_defined)
  qed
qed

lemma nested_pred_eq: "nested_pred v = Inr (typeof_object v \<and> carries_id v)"
proof (cases "truthy v \<and> typeof_object v")
  case True
  then show ?thesis
    using truthy_defined [of v] by (simp add: nested_pred_def id_of_defined carries_id_def)
next
  case False
  then show ?thesis
    using carries_id_truthy [of v] by (auto simp: nested_pred_def)
qed

lemma own_prop_falsy: "\<not> truthy data \<Longrightarrow> own_prop data k = Undefined \<or> k = ''length''"
  by (cases data) (simp_all add: nth_or_undefined_def split: option.splits)

lemma extract_eq: "extractUpdatedCase data = Inr (extract_spec data)"
proof (cases "truthy data")
  case False
  then have a: "\<not> carries_id data"
    using carries_id_truthy by blast
  have b: "own_props data = []"
    using False by (cases data) simp_all
  have c: "\<And>k. k \<in> set wrapper_keys \<Longrightarrow> own_prop data k = Undefined"
    using False own_prop_falsy [of data] by (auto simp: wrapper_keys_def)
  have d: "find (\<lambda>k. carries_id (own_prop data k)) wrapper_keys = None"
    using c by (auto simp: find_None_iff carries_id_def)
  show ?thesis
    using False a b d by (simp add: extractUpdatedCase_def extract_spec_def)
next
  case True
  then have nn: "data \<noteq> Null" "data \<noteq> Undefined"
    using truthy_defined by blast+
  show ?thesis
  proof (cases "carries_id data")
    case c: True
    then show ?thesis
      using True nn by (simp add: extractUpdatedCase_def extract_spec_def id_of_defined carries_id_def)
  next
    case c: False
    show ?thesis
    proof (cases "find (\<lambda>k. carries_id (own_prop data k)) wrapper_keys")
      case (Some k)
      then show ?thesis
        using True nn c
        by (simp add: extractUpdatedCase_def extract_spec_def id_of_defined carries_id_def
            probe_keys_find)
    next
      case None
      have f: "find_err nested_pred (map snd (own_props data)) =
               Inr (find (\<lambda>v. typeof_object v \<and> carries_id v) (map snd (own_props data)))"
        by (rule find_err_pure_on) (rule nested_pred_eq)
      show ?thesis
      proof (cases "find (\<lambda>v. typeof_object v \<and> carries_id v) (map snd (own_props data))")
        case n2: None
        then show ?thesis
          using True nn c None f
          by (simp add: extractUpdatedCase_def extract_spec_def id_of_defined carries_id_def
              probe_keys_find object_values_def js_or_def or_undefined_def)
      next
        case s2: (Some v)
        then have "truthy v"
          using carries_id_truthy by (auto simp: find_Some_iff)
        then show ?thesis
          using True nn c None f s2
          by (simp add: extractUpdatedCase_def extract_spec_def id_of_defined carries_id_def
              probe_keys_find object_values_def js_or_def or_undefined_def)
      qed
    qed
  qed
qed

lemma extract_spec_result: "extract_spec data = Null \<or> (\<exists>ps. extract_spec data = Obj ps)"
proof -
  have "carries_id v \<Longrightarrow> \<exists>ps. v = Obj ps" for v
    by (rule carries_id_object)
  then show ?thesis
    unfolding extract_spec_def
    by (auto split: option.splits simp: find_Some_iff)
qed

lemma array_index_wrapper: "k \<in> set wrapper_keys \<Longrightarrow> array_index k = None \<and> k \<noteq> ''length''"
  by (auto simp: wrapper_keys_def array_index_def is_digit_def)

lemma extract_spec_primitive:
  assumes "data = Null \<or> \<not> typeof_object data"
  shows "extract_spec data = Null"
proof -
  have a: "\<not> carries_id data"
    using assms carries_id_object [of data] by auto
  have "own_prop data k = Undefined" if "k \<in> set wrapper_keys" for k
    using assms array_index_wrapper [OF that]
    by (cases data) (simp_all add: nth_or_undefined_def)
  then have b: "find (\<lambda>k. carries_id (own_prop data k)) wrapper_keys = None"
    by (auto simp: find_None_iff carries_id_def)
  have "\<not> typeof_object v" if "v \<in> set (map snd (enumerate_from i (map (\<lambda>c. Str [c]) s)))" for v i s
    using that by (induction s arbitrary: i) auto
  then have "\<not> typeof_object v" if "v \<in> set (map snd (own_props data))" for v
    using assms that by (cases data) auto
  then have c: "find (\<lambda>v. typeof_object v \<and> carries_id v) (map snd (own_props data)) = None"
    unfolding find_None_iff by blast
  show ?thesis
    using a b c by (simp add: extract_spec_def)
qed

text \<open>
  The test for an identifier is truthiness: a body whose \<open>_id\<close> is \<open>0\<close>, empty or
  \<open>null\<close> passes for one without identifier.
\<close>

lemma extractUpdatedCase_falsy_identifier:
  "extractUpdatedCase (Obj [(''_id'', Num 0), (''status'', Str ''Closed'')]) = Inr Null"
  "extractUpdatedCase (Obj [(''_id'', Str []), (''status'', Str ''Closed'')]) = Inr Null"
  by code_simp+

section \<open>The handler: its effects\<close>

lemma on_failure_eq:
  "on_failure gr =
     (ConsoleError # ApiGet #
        (case gr of Inl e \<Rightarrow> [ConsoleError] | Inr d \<Rightarrow> [SetCases (Replaced (array_or_empty d))]) @ [Alert],
      Inr ())"
  by (cases gr) (simp_all add: on_failure_def bind_act_def try_catch_def emit_def lift_def)

lemma bind_act_lift_Inr [simp]: "bind_act (lift (Inr v)) f = f v"
  by (simp add: bind_act_def lift_def)

lemma bind_act_lift_Inl [simp]: "bind_act (lift (Inl e)) f = ([], Inl e)"
  by (simp add: bind_act_def lift_def)

lemma handle_absent:
  "caseId = None \<or> caseId = Some [] \<Longrightarrow> handleUpdateStatus sel caseId ns pr gr = ([], Inr ())"
  by (auto simp: handleUpdateStatus_def lift_def)

lemma handle_failed:
  "cid \<noteq> [] \<Longrightarrow>
   handleUpdateStatus sel (Some cid) ns (Inl e) gr =
     ([SetUpdatingCaseId (Some cid), SetCases (Optimistic cid ns), ApiPut cid ns, ConsoleError, ApiGet] @
      (case gr of Inl e' \<Rightarrow> [ConsoleError] | Inr d \<Rightarrow> [SetCases (Replaced (array_or_empty d))]) @
      [Alert, SetUpdatingCaseId None], Inr ())"
  by (simp add: handleUpdateStatus_def bind_act_def try_catch_def try_finally_def on_failure_eq
      emit_def lift_def)

lemma handle_replied:
  "cid \<noteq> [] \<Longrightarrow>
   handleUpdateStatus sel (Some cid) ns (Inr data) gr =
     ([SetUpdatingCaseId (Some cid), SetCases (Optimistic cid ns), ApiPut cid ns] @
      fst (on_reply sel data) @
      (case snd (on_reply sel data) of Inl e \<Rightarrow> fst (on_failure gr) | Inr u \<Rightarrow> []) @
      [SetUpdatingCaseId None], Inr ())"
  by (cases "snd (on_reply sel data)")
     (simp_all add: handleUpdateStatus_def bind_act_def try_catch_def try_finally_def on_failure_eq
       emit_def lift_def)

lemma on_reply_no_record:
  assumes "extractUpdatedCase data = Inr Null"
  shows "on_reply sel data = ([ConsoleWarn], Inr ())"
proof -
  have e: "extract_spec data = Null"
    using assms by (simp add: extract_eq)
  have "\<not> truthy c" if "and_id data = Inr c" for c
  proof (cases "truthy data")
    case False
    with that show ?thesis by (simp add: and_id_def)
  next
    case True
    then have "id_of data = Inr (js_or (own_prop data ''_id'') (own_prop data ''id''))"
      using truthy_defined id_of_defined by blast
    moreover have "\<not> carries_id data"
      using e True by (auto simp: extract_spec_def)
    ultimately show ?thesis
      using that True by (auto simp: and_id_def carries_id_def)
  qed
  moreover have "\<exists>c. and_id data = Inr c"
    using truthy_defined [of data] id_of_defined [of data] by (auto simp: and_id_def)
  ultimately show ?thesis
    using assms by (auto simp: on_reply_def js_nullish_def emit_def)
qed

lemma on_reply_effects:
  "set (fst (on_reply sel data)) \<subseteq> range SetCases \<union> range SetSelectedCase \<union> {ConsoleWarn}"
proof -
  obtain ex where ex: "extractUpdatedCase data = Inr ex"
    by (simp add: extract_eq)
  show ?thesis
    unfolding on_reply_def ex Let_def
    by (auto simp: bind_act_def lift_def emit_def split: sum.splits if_splits)
qed

lemma run_effects_append:
  "run_effects (es @ es') st = bind_err (run_effects es st) (run_effects es')"
  by (induction es arbitrary: st) (auto simp: bind_err_def split: sum.splits)

lemma apply_effect_other: "\<not> is_update e \<Longrightarrow> apply_effect e st = Inr st"
  by (cases e) simp_all

lemma batched_run_effects: "batched es q st = run_effects (q @ es) st"
proof (induction es arbitrary: q st)
  case Nil
  then show ?case by simp
next
  case (Cons e es)
  show ?case
  proof (cases "is_update e")
    case True
    then have "\<not> is_call e"
      by (cases e) simp_all
    then show ?thesis
      using True Cons [of "q @ [e]" st] by simp
  next
    case False
    have "run_effects (e # es) = run_effects es"
      using False by (intro ext) (simp add: apply_effect_other)
    then have r: "run_effects (q @ e # es) st = bind_err (run_effects q st) (run_effects es)"
      by (simp add: run_effects_append)
    show ?thesis
    proof (cases "is_call e")
      case True
      have "batched es [] = run_effects es"
        using Cons [of "[]"] by (intro ext) simp
      then show ?thesis
        using True r by simp
    next
      case c: False
      then show ?thesis
        using False r Cons [of q st] by (simp add: run_effects_append)
    qed
  qed
qed

lemma handle_shape:
  assumes "cid \<noteq> []"
  shows "snd (handleUpdateStatus sel (Some cid) ns pr gr) = Inr () \<and>
         (\<exists>mid. fst (handleUpdateStatus sel (Some cid) ns pr gr) =
            [SetUpdatingCaseId (Some cid), SetCases (Optimistic cid ns), ApiPut cid ns] @ mid @
            [SetUpdatingCaseId None] \<and> (\<forall>a b. ApiPut a b \<notin> set mid))"
proof (cases pr)
  case (Inl e)
  let ?mid = "[ConsoleError, ApiGet] @
      (case gr of Inl e' \<Rightarrow> [ConsoleError] | Inr d \<Rightarrow> [SetCases (Replaced (array_or_empty d))]) @
      [Alert]"
  have "fst (handleUpdateStatus sel (Some cid) ns pr gr) =
      [SetUpdatingCaseId (Some cid), SetCases (Optimistic cid ns), ApiPut cid ns] @ ?mid @
      [SetUpdatingCaseId None]"
    using assms Inl by (simp add: handle_failed)
  moreover have "\<forall>a b. ApiPut a b \<notin> set ?mid"
    by (cases gr) simp_all
  moreover have "snd (handleUpdateStatus sel (Some cid) ns pr gr) = Inr ()"
    using assms Inl by (simp add: handle_failed)
  ultimately show ?thesis
    by blast
next
  case (Inr data)
  let ?mid = "fst (on_reply sel data) @
      (case snd (on_reply sel data) of Inl e \<Rightarrow> fst (on_failure gr) | Inr u \<Rightarrow> [])"
  have "fst (handleUpdateStatus sel (Some cid) ns pr gr) =
      [SetUpdatingCaseId (Some cid), SetCases (Optimistic cid ns), ApiPut cid ns] @ ?mid @
      [SetUpdatingCaseId None]"
    using assms Inr by (simp add: handle_replied)
  moreover have "\<forall>a b. ApiPut a b \<notin> set (fst (on_reply sel data))"
    using on_reply_effects [of sel data] by auto
  moreover have "\<forall>a b. ApiPut a b \<notin> set (fst (on_failure gr))"
    by (cases gr) (simp_all add: on_failure_eq)
  ultimately have "\<forall>a b. ApiPut a b \<notin> set ?mid"
    by (cases "snd (on_reply sel data)") simp_all
  moreover have "snd (handleUpdateStatus sel (Some cid) ns pr gr) = Inr ()"
    using assms Inr by (simp add: handle_replied)
  ultimately show ?thesis
    using \<open>fst (handleUpdateStatus sel (Some cid) ns pr gr) = _\<close> by blast
qed

section \<open>The optimistic rewrite\<close>

lemma define_prop_status_filter:
  "filter (\<lambda>p. fst p \<noteq> ''status'') (define_prop ''status'' v ps) = filter (\<lambda>p. fst p \<noteq> ''status'') ps"
proof (cases "''status'' \<in> set (map fst ps)")
  case True
  have "filter (\<lambda>p. fst p \<noteq> k) (map (\<lambda>p. if fst p = k then (k, v) else p) qs) = filter (\<lambda>p. fst p \<noteq> k) qs"
    for k and qs :: "(string \<times> jsval) list"
    by (induction qs) auto
  with True show ?thesis
    by (simp add: define_prop_def)
next
  case False
  then show ?thesis
    by (simp add: define_prop_def)
qed

lemma map_of_replace:
  "k \<in> set (map fst qs) \<Longrightarrow> map_of (map (\<lambda>p. if fst p = k then (k, v) else p) qs) k = Some v"
  by (induction qs) auto

lemma define_prop_status_lookup: "lookup (define_prop ''status'' v ps) ''status'' = v"
proof (cases "''status'' \<in> set (map fst ps)")
  case True
  then show ?thesis
    using map_of_replace [OF True, of v] by (simp add: define_prop_def lookup_def)
next
  case False
  then have "map_of ps ''status'' = None"
    by (simp add: map_of_eq_None_iff)
  with False show ?thesis
    by (simp add: define_prop_def lookup_def map_add_def)
qed

lemma optimistic_case_defined:
  "defined c \<Longrightarrow> optimistic_case cid ns c = Inr (optimistic_record cid ns c)"
  by (simp add: optimistic_case_def optimistic_record_def defined_def get_prop_defined)

lemma optimistic_defined:
  "\<forall>c\<in>set prev. defined c \<Longrightarrow>
   apply_cases_update (Optimistic cid ns) prev = Inr (map (optimistic_record cid ns) prev)"
  by (simp add: map_err_pure optimistic_case_defined)

lemma optimistic_record_other:
  "own_prop c ''_id'' \<noteq> Str cid \<Longrightarrow> optimistic_record cid ns c = c"
  by (simp add: optimistic_record_def)

lemma optimistic_record_match:
  assumes "own_prop c ''_id'' = Str cid"
  shows "\<exists>ps qs. c = Obj ps \<and> optimistic_record cid ns c = Obj qs \<and> lookup qs ''status'' = ns \<and>
           filter (\<lambda>p. fst p \<noteq> ''status'') qs = filter (\<lambda>p. fst p \<noteq> ''status'') ps"
proof -
  obtain ps where "c = Obj ps"
    using assms own_prop_id_Str by blast
  then show ?thesis
    using assms by (simp add: optimistic_record_def define_prop_status_filter define_prop_status_lookup)
qed

lemma optimistic_record_status:
  "own_prop c ''_id'' = Str cid \<Longrightarrow> own_prop (optimistic_record cid ns c) ''status'' = ns"
  using optimistic_record_match [of c cid ns] by auto

section \<open>Doctor lookup, recent cases, status tab: auxiliary facts\<close>

lemma doctor_matches_defined:
  "defined d \<Longrightarrow> doctor_matches s d = Inr (matches_id s d)"
  by (auto simp: doctor_matches_def matches_id_def defined_def get_prop_defined)

lemma matches_id_truthy: "matches_id s d \<Longrightarrow> truthy d"
  using own_prop_id_Str [of d s] own_prop_id2_Str [of d s] by (auto simp: matches_id_def)

lemma getAssignedDoctor_string:
  assumes "\<forall>d\<in>set doctors. defined d" and "s \<noteq> []"
  shows "getAssignedDoctor doctors (Str s) =
           Inr (case find (matches_id s) doctors of Some d \<Rightarrow> d | None \<Rightarrow> placeholder)"
proof -
  have f: "find_err (doctor_matches s) doctors = Inr (find (matches_id s) doctors)"
    using assms(1) by (intro find_err_pure_on doctor_matches_defined) blast
  show ?thesis
  proof (cases "find (matches_id s) doctors")
    case None
    then show ?thesis
      using assms(2) f by (simp add: getAssignedDoctor_def or_undefined_def js_or_def)
  next
    case (Some d)
    then have "truthy d"
      using matches_id_truthy by (auto simp: find_Some_iff)
    then show ?thesis
      using assms(2) f Some by (simp add: getAssignedDoctor_def or_undefined_def js_or_def)
  qed
qed

lemma find_first:
  "\<forall>x\<in>set pre. \<not> P x \<Longrightarrow> P d \<Longrightarrow> find P (pre @ d # post) = Some d"
  by (induction pre) simp_all

lemma insert_by_insort:
  "insert_by (\<lambda>a b. f b - f a) x ys = insort_key (\<lambda>c. - f c) x ys"
  by (induction ys) auto

lemma sort_by_sort_key: "sort_by (\<lambda>a b. f b - f a) xs = sort_key (\<lambda>c. - f c) xs"
proof -
  have "insert_by (\<lambda>a b. f b - f a) = insort_key (\<lambda>c. - f c)"
    by (intro ext) (rule insert_by_insort)
  then show ?thesis
    by (simp add: sort_by_def sort_key_def)
qed

lemma sorted_desc_sort_by:
  "sorted_wrt (\<lambda>a b. f b \<le> f a) (sort_by (\<lambda>a b. f b - f a) xs)"
proof -
  have "sorted (map (\<lambda>c. - f c) (sort_key (\<lambda>c. - f c) xs))"
    by (rule sorted_sort_key)
  then show ?thesis
    by (simp add: sort_by_sort_key sorted_map)
qed

lemma mset_sort_by: "mset (sort_by (\<lambda>a b. f b - f a) xs) = mset xs"
  by (simp add: sort_by_sort_key)

lemma stable_sort_by:
  "filter (\<lambda>c. f c = k) (sort_by (\<lambda>a b. f b - f a) xs) = filter (\<lambda>c. f c = k) xs"
  using sort_key_stable [of "\<lambda>c. - f c" "- k" xs] by (simp add: sort_by_sort_key)

lemma sorted_wrt_take_drop:
  "sorted_wrt P xs \<Longrightarrow> x \<in> set (take n xs) \<Longrightarrow> y \<in> set (drop n xs) \<Longrightarrow> P x y"
  using sorted_wrt_append [of P "take n xs" "drop n xs"] by simp

lemma recent_length: "length (latest_six f cs) = min 6 (length cs)"
proof -
  have "length (sort_by (\<lambda>a b. f b - f a) cs) = length cs"
    using mset_sort_by [of f cs] by (metis size_mset)
  then show ?thesis
    by (simp add: latest_six_def)
qed

lemma recent_sorted: "sorted_wrt (\<lambda>a b. f b \<le> f a) (latest_six f cs)"
  unfolding latest_six_def using sorted_desc_sort_by [of f cs] by (rule sorted_wrt_take)

lemma recent_mset:
  "mset cs = mset (latest_six f cs) + mset (drop 6 (sort_by (\<lambda>a b. f b - f a) cs))"
proof -
  have "mset (take 6 (sort_by (\<lambda>a b. f b - f a) cs)) + mset (drop 6 (sort_by (\<lambda>a b. f b - f a) cs))
        = mset (sort_by (\<lambda>a b. f b - f a) cs)"
    by (metis append_take_drop_id mset_append)
  then show ?thesis
    by (simp add: latest_six_def mset_sort_by)
qed

lemma recent_newest:
  assumes "x \<in># mset cs - mset (latest_six f cs)" and "y \<in> set (latest_six f cs)"
  shows "f x \<le> f y"
proof -
  have "mset cs - mset (latest_six f cs) = mset (drop 6 (sort_by (\<lambda>a b. f b - f a) cs))"
    using recent_mset [of cs f] by simp
  then have "x \<in> set (drop 6 (sort_by (\<lambda>a b. f b - f a) cs))"
    using assms(1) by simp
  moreover have "y \<in> set (take 6 (sort_by (\<lambda>a b. f b - f a) cs))"
    using assms(2) by (simp add: latest_six_def)
  ultimately show ?thesis
    using sorted_wrt_take_drop [OF sorted_desc_sort_by [of f cs], of y 6 x] by simp
qed

lemma recent_stable:
  "prefix (filter (\<lambda>c. f c = k) (latest_six f cs)) (filter (\<lambda>c. f c = k) cs)"
proof -
  have "prefix (filter (\<lambda>c. f c = k) (take 6 (sort_by (\<lambda>a b. f b - f a) cs)))
               (filter (\<lambda>c. f c = k) (sort_by (\<lambda>a b. f b - f a) cs))"
    by (intro filter_mono_prefix take_is_prefix)
  then show ?thesis
    by (simp add: latest_six_def stable_sort_by)
qed

lemma recent_all: "length cs \<le> 6 \<Longrightarrow> mset (latest_six f cs) = mset cs"
proof -
  assume "length cs \<le> 6"
  then have "length (sort_by (\<lambda>a b. f b - f a) cs) \<le> 6"
    using mset_sort_by [of f cs] by (metis size_mset)
  then show ?thesis
    by (simp add: latest_six_def mset_sort_by)
qed

lemma insert_by_paired:
  "insert_by (\<lambda>a b. snd b - snd a) (x, f x) (map (\<lambda>c. (c, f c)) ys) =
   map (\<lambda>c. (c, f c)) (insert_by (\<lambda>a b. f b - f a) x ys)"
  by (induction ys) simp_all

lemma sort_by_paired:
  "sort_by (\<lambda>a b. snd b - snd a) (map (\<lambda>c. (c, f c)) xs) =
   map (\<lambda>c. (c, f c)) (sort_by (\<lambda>a b. f b - f a) xs)"
  by (induction xs) (simp_all add: sort_by_def insert_by_paired)

lemma sort_by_short: "length xs < 2 \<Longrightarrow> sort_by cmp xs = xs"
  by (cases xs; cases "tl xs") (simp_all add: sort_by_def)

lemma created_time_Undefined: "created_time parse Undefined = Inl TypeError"
  by (simp add: created_time_def get_prop_def)

lemma those_map_Some: "those (map (\<lambda>c. Some (f c)) xs) = Some (map f xs)"
  by (induction xs) simp_all

text \<open>
  On a collection in which every record has a valid creation date the derivation
  returns the six latest records.
\<close>

lemma recentCases_dated:
  assumes "\<forall>c\<in>set cs. \<exists>t. created_time parse c = Inr (Some t)"
  shows "recentCases parse cs = Returns (latest_six (time_of parse) cs)"
proof -
  have t: "created_time parse c = Inr (Some (time_of parse c))" if "c \<in> set cs" for c
    using assms that by (auto simp: time_of_def)
  have u: "Undefined \<notin> set cs"
    using assms created_time_Undefined by fastforce
  then have ds: "filter (\<lambda>c. c \<noteq> Undefined) cs = cs" and us: "filter (\<lambda>c. c = Undefined) cs = []"
    by (induction cs) auto
  show ?thesis
  proof (cases "length cs < 2")
    case True
    then have "take 6 cs = cs"
      by simp
    then show ?thesis
      using True ds us by (simp add: recentCases_def sort_created_def latest_six_def sort_by_short)
  next
    case False
    have m: "map_err (created_time parse) cs = Inr (map (\<lambda>c. Some (time_of parse c)) cs)"
      by (rule map_err_pure) (rule t)
    have z: "zip cs (map (time_of parse) cs) = map (\<lambda>c. (c, time_of parse c)) cs"
      by (induction cs) simp_all
    have "map fst (sort_by (\<lambda>a b. snd b - snd a) (zip cs (map (time_of parse) cs))) =
          sort_by (\<lambda>a b. time_of parse b - time_of parse a) cs"
      unfolding z sort_by_paired by (simp add: comp_def)
    then show ?thesis
      using False ds us m
      by (simp add: recentCases_def sort_created_def latest_six_def those_map_Some)
  qed
qed

lemma recentCases_dated_latest:
  assumes "\<forall>c\<in>set cs. \<exists>t. created_time parse c = Inr (Some t)"
  shows "\<exists>rs. recentCases parse cs = Returns rs \<and>
           (7 \<le> length cs \<longrightarrow> length rs = 6) \<and>
           (length cs \<le> 6 \<longrightarrow> mset rs = mset cs) \<and>
           mset rs \<subseteq># mset cs \<and>
           sorted_wrt (\<lambda>a b. time_of parse b \<le> time_of parse a) rs \<and>
           (\<forall>x y. x \<in># mset cs - mset rs \<and> y \<in> set rs \<longrightarrow> time_of parse x \<le> time_of parse y) \<and>
           (\<forall>t. prefix (filter (\<lambda>c. time_of parse c = t) rs) (filter (\<lambda>c. time_of parse c = t) cs))"
proof -
  let ?rs = "latest_six (time_of parse) cs"
  have "mset ?rs \<subseteq># mset cs"
    using recent_mset [of cs "time_of parse"] by (metis mset_subset_eq_add_left)
  then have "(7 \<le> length cs \<longrightarrow> length ?rs = 6) \<and>
           (length cs \<le> 6 \<longrightarrow> mset ?rs = mset cs) \<and>
           mset ?rs \<subseteq># mset cs \<and>
           sorted_wrt (\<lambda>a b. time_of parse b \<le> time_of parse a) ?rs \<and>
           (\<forall>x y. x \<in># mset cs - mset ?rs \<and> y \<in> set ?rs \<longrightarrow> time_of parse x \<le> time_of parse y) \<and>
           (\<forall>t. prefix (filter (\<lambda>c. time_of parse c = t) ?rs) (filter (\<lambda>c. time_of parse c = t) cs))"
    using recent_newest [of _ cs "time_of parse"]
    by (simp add: recent_length recent_all recent_sorted recent_stable)
  then show ?thesis
    using recentCases_dated [OF assms] by blast
qed

text \<open>
  The outcome \<open>AnyOrder xs\<close> allows exactly the lists that are the first six elements
  of a permutation of \<open>xs\<close>.
\<close>

lemma taken_from_mset: "taken_from r xs = (mset r \<subseteq># mset xs)"
proof (induction r arbitrary: xs)
  case Nil
  then show ?case by simp
next
  case (Cons a r)
  show ?case
  proof (cases "a \<in> set xs")
    case True
    then have "mset xs = add_mset a (mset (remove1 a xs))"
      by simp
    then have "(mset (a # r) \<subseteq># mset xs) = (mset r \<subseteq># mset (remove1 a xs))"
      by (metis mset.simps(2) mset_subset_eq_add_mset_cancel)
    then show ?thesis
      using True Cons.IH [of "remove1 a xs"] by simp
  next
    case False
    then have "\<not> mset (a # r) \<subseteq># mset xs"
      by (metis list.set_intros(1) mset_subset_eqD set_mset_mset)
    then show ?thesis
      using False by simp
  qed
qed

lemma may_return_AnyOrder:
  "may_return (AnyOrder xs) r = (\<exists>ys. mset ys = mset xs \<and> r = take 6 ys)"
proof
  assume "may_return (AnyOrder xs) r"
  then have l: "length r = min 6 (length xs)" and m: "mset r \<subseteq># mset xs"
    by (simp_all add: taken_from_mset)
  obtain zs where zs: "mset zs = mset xs - mset r"
    using ex_mset by blast
  then have p: "mset (r @ zs) = mset xs"
    using m by simp
  then have "length (r @ zs) = length xs"
    by (metis size_mset)
  then have "take 6 (r @ zs) = r"
    using l by (cases "length xs \<le> 6") auto
  then show "\<exists>ys. mset ys = mset xs \<and> r = take 6 ys"
    using p by metis
next
  assume "\<exists>ys. mset ys = mset xs \<and> r = take 6 ys"
  then obtain ys where ys: "mset ys = mset xs" "r = take 6 ys"
    by blast
  then have "length ys = length xs"
    by (metis size_mset)
  moreover have "mset (take 6 ys) \<subseteq># mset ys"
    by (metis append_take_drop_id mset_append mset_subset_eq_add_left)
  ultimately show "may_return (AnyOrder xs) r"
    using ys by (simp add: taken_from_mset)
qed

lemma find_status_closed:
  "find (\<lambda>t. toLowerCase t = toLowerCase ''Pending'') STATUSES = Some ''Pending''"
  "find (\<lambda>t. toLowerCase t = toLowerCase ''Assigned'') STATUSES = Some ''Assigned''"
  "find (\<lambda>t. toLowerCase t = toLowerCase ''In Progress'') STATUSES = Some ''In Progress''"
  "find (\<lambda>t. toLowerCase t = toLowerCase ''Follow Up'') STATUSES = Some ''Follow Up''"
  "find (\<lambda>t. toLowerCase t = toLowerCase ''Closed'') STATUSES = Some ''Closed''"
  by code_simp+

lemma in_statuses:
  "s \<in> set STATUSES \<Longrightarrow>
   s = ''Pending'' \<or> s = ''Assigned'' \<or> s = ''In Progress'' \<or> s = ''Follow Up'' \<or> s = ''Closed''"
  unfolding STATUSES_def by simp

lemma find_status:
  assumes "s \<in> set STATUSES"
  shows "find (\<lambda>t. toLowerCase t = toLowerCase s) STATUSES = Some s"
  using in_statuses [OF assms] find_status_closed by blast

lemma sync_tab_match:
  assumes "s \<in> set STATUSES" and "toLowerCase p = toLowerCase s"
  shows "sync_tab (Some p) = s"
proof -
  have "s \<noteq> []"
    using in_statuses [OF assms(1)] by auto
  moreover have "p \<noteq> []"
    using assms(2) \<open>s \<noteq> []\<close> by (auto simp: toLowerCase_def)
  ultimately show ?thesis
    using find_status [OF assms(1)] by (simp add: sync_tab_def assms(2))
qed

lemma sync_tab_no_match:
  assumes "\<forall>s\<in>set STATUSES. toLowerCase p \<noteq> toLowerCase s"
  shows "sync_tab (Some p) = ''All''"
proof -
  have "\<not> (\<exists>s. s \<in> set STATUSES \<and> toLowerCase s = toLowerCase p)"
    using assms by metis
  then have "find (\<lambda>s. toLowerCase s = toLowerCase p) STATUSES = None"
    unfolding find_None_iff by blast
  then show ?thesis
    by (simp add: sync_tab_def)
qed

section \<open>Statistics: auxiliary facts\<close>

lemma bump_regular:
  assumes "key \<noteq> ''total''" and "key \<noteq> ''constructor''" and "key \<noteq> ''__proto__''"
  shows "total (bump key cnt) = total cnt \<and> bucket_sum (bump key cnt) = Suc (bucket_sum cnt)"
  using assms unfolding bump_def bucket_sum_def by (simp only: if_False split: if_split) simp

text \<open>
  On a collection without the three keys \<open>total\<close>, \<open>constructor\<close> and \<open>__proto__\<close> the
  snapshot is as intended: every record is counted once in the total and once in a
  bucket.
\<close>

lemma stats_loop_regular:
  assumes "\<forall>c\<in>set cs. \<exists>key. status_key c = Inr key \<and> key \<noteq> ''total'' \<and>
             key \<noteq> ''constructor'' \<and> key \<noteq> ''__proto__''"
  shows "\<exists>cnt'. stats_loop cnt cs = Inr cnt' \<and> total cnt' = total cnt + length cs \<and>
           bucket_sum cnt' = bucket_sum cnt + length cs"
  using assms
proof (induction cs arbitrary: cnt)
  case Nil
  then show ?case by simp
next
  case (Cons c cs)
  then obtain key where k: "status_key c = Inr key" "key \<noteq> ''total''"
    "key \<noteq> ''constructor''" "key \<noteq> ''__proto__''"
    by auto
  let ?c1 = "bump key (cnt\<lparr>total := total cnt + 1\<rparr>)"
  have s: "stats_step cnt c = Inr ?c1"
    using k(1) by (simp add: stats_step_def)
  have b: "total ?c1 = total cnt + 1" "bucket_sum ?c1 = Suc (bucket_sum cnt)"
    using bump_regular [OF k(2-4), of "cnt\<lparr>total := total cnt + 1\<rparr>"]
    by (simp_all add: bucket_sum_def)
  obtain cnt' where "stats_loop ?c1 cs = Inr cnt'" "total cnt' = total ?c1 + length cs"
    "bucket_sum cnt' = bucket_sum ?c1 + length cs"
    using Cons.IH [of ?c1] Cons.prems by auto
  then show ?case
    using s b by simp
qed

text \<open>
  The normalization maps statuses that differ in letter case and whitespace to one
  key; a missing status gives the key \<open>unknown\<close>.
\<close>

lemma status_key_examples:
  "status_key (Obj [(''status'', Str ''In Progress'')]) = Inr ''inprogress''"
  "status_key (Obj [(''status'', Str ''inprogress'')]) = Inr ''inprogress''"
  "status_key (Obj [(''status'', Str '' IN PROGRESS '')]) = Inr ''inprogress''"
  "status_key (Obj [(''_id'', Str ''c1'')]) = Inr ''unknown''"
  by code_simp+

text \<open>
  The two inherited names behave like \<open>total\<close>: the record is counted in the total and
  in no bucket.
\<close>

lemma stats_inherited_keys:
  "stats [Obj [(''status'', Str ''constructor'')]] = Inr (count0\<lparr>total := 1, constructor_nan := True\<rparr>)"
  "stats [Obj [(''status'', Str ''__proto__'')]] = Inr (count0\<lparr>total := 1\<rparr>)"
  by code_simp+

section \<open>The claims\<close>

text \<open>
  Claim C1. For every case record the aggregator lower-cases the status and removes
  its whitespace; a key among the six known buckets increments that bucket, and any
  other key, also the key \<open>unknown\<close> of a record without status, increments the
  \<open>unknown\<close> counter.

  The code misses a case. The test \<open>count[key] !== undefined\<close> holds for every
  property of \<open>count\<close>, so a record with status \<open>Total\<close>, whose key \<open>total\<close> is none of
  the six buckets, increments \<open>total\<close> a second time and leaves \<open>unknown\<close> at zero.
\<close>

theorem stats_step_key_total:
  "status_key (Obj [(''status'', Str ''Total'')]) = Inr ''total'' \<and>
   stats_step count0 (Obj [(''status'', Str ''Total'')]) = Inr (count0\<lparr>total := 2\<rparr>) \<and>
   unknown (count0\<lparr>total := 2\<rparr>) = 0"
  by code_simp

text \<open>
  Claim C2. For every case collection the seven bucket counters of the snapshot sum
  up to its total count.

  The code breaks the sum on the same missed case: for the collection of one record
  with status \<open>Total\<close> the snapshot has total 2 and all buckets at zero.
\<close>

theorem stats_sum_not_total:
  "stats [Obj [(''status'', Str ''Total'')]] = Inr (count0\<lparr>total := 2\<rparr>) \<and>
   total (count0\<lparr>total := 2\<rparr>) = 2 \<and> bucket_sum (count0\<lparr>total := 2\<rparr>) = 0"
  by code_simp

text \<open>
  Claim C3. When the case identifier is absent the status update is a no-op (state
  unchanged, no remote call); otherwise the local collection is rewritten, so that
  the record matching the identifier shows the new status, strictly before the
  remote update call is issued. An identifier is absent when the guard \<open>!caseId\<close> of
  the code holds: \<open>undefined\<close>, \<open>null\<close> or the empty string.

  As stated the claim fails: the handler only queues the rewrite before it issues
  the call, and at the moment of the call the record still shows the old status.
\<close>

theorem handleUpdateStatus_call_sees_old_status:
  "first_call
     (fst (handleUpdateStatus Null (Some ''c1'') (Str ''Closed'') (Inl RequestFailed) (Inl RequestFailed)))
     []
     \<lparr>cases = [Obj [(''_id'', Str ''c1''), (''status'', Str ''Pending'')]], selectedCase = Null,
      updatingCaseId = None\<rparr> =
   Inr (Some (ApiPut ''c1'' (Str ''Closed''),
     \<lparr>cases = [Obj [(''_id'', Str ''c1''), (''status'', Str ''Pending'')]], selectedCase = Null,
      updatingCaseId = None\<rparr>,
     \<lparr>cases = [Obj [(''_id'', Str ''c1''), (''status'', Str ''Closed'')]], selectedCase = Null,
      updatingCaseId = Some ''c1''\<rparr>))"
  by (simp add: handle_failed optimistic_case_def get_prop_def lookup_def define_prop_def)

text \<open>
  The amended claim C3. When the case identifier is absent the status update is a
  no-op: no effect at all, so the state is unchanged and no remote call is issued.
  Otherwise the rewrite of the local collection is requested strictly before the one
  remote update call is issued; at the moment the call is issued the state is still
  the old one; and once the handler has suspended on the call, so before the call
  resolves, the collection shows the new status in every record that matches the
  identifier.
\<close>

theorem handleUpdateStatus_order:
  "(caseId = None \<or> caseId = Some [] \<longrightarrow>
      handleUpdateStatus sel caseId ns pr gr = ([], Inr ()) \<and>
      run_effects (fst (handleUpdateStatus sel caseId ns pr gr)) st = Inr st \<and>
      first_call (fst (handleUpdateStatus sel caseId ns pr gr)) [] st = Inr None) \<and>
   (cid \<noteq> [] \<longrightarrow>
      (\<exists>rest. fst (handleUpdateStatus sel (Some cid) ns pr gr) =
          SetUpdatingCaseId (Some cid) # SetCases (Optimistic cid ns) # ApiPut cid ns # rest \<and>
          (\<forall>a b. ApiPut a b \<notin> set rest))) \<and>
   (cid \<noteq> [] \<and> (\<forall>c\<in>set (cases st). defined c) \<longrightarrow>
      (\<exists>cs'. first_call (fst (handleUpdateStatus sel (Some cid) ns pr gr)) [] st =
          Inr (Some (ApiPut cid ns, st, st\<lparr>updatingCaseId := Some cid, cases := cs'\<rparr>)) \<and>
          length cs' = length (cases st) \<and>
          (\<forall>i<length (cases st). own_prop (cases st ! i) ''_id'' = Str cid \<longrightarrow>
             own_prop (cs' ! i) ''status'' = ns)))"
proof (intro conjI impI)
  assume a: "caseId = None \<or> caseId = Some []"
  then show e: "handleUpdateStatus sel caseId ns pr gr = ([], Inr ())"
    by (rule handle_absent)
  then show "run_effects (fst (handleUpdateStatus sel caseId ns pr gr)) st = Inr st"
    by simp
  from e show "first_call (fst (handleUpdateStatus sel caseId ns pr gr)) [] st = Inr None"
    by simp
next
  assume "cid \<noteq> []"
  then obtain mid where
    m: "fst (handleUpdateStatus sel (Some cid) ns pr gr) =
          [SetUpdatingCaseId (Some cid), SetCases (Optimistic cid ns), ApiPut cid ns] @ mid @
          [SetUpdatingCaseId None]"
    and n: "\<forall>a b. ApiPut a b \<notin> set mid"
    using handle_shape by blast
  have "fst (handleUpdateStatus sel (Some cid) ns pr gr) =
          SetUpdatingCaseId (Some cid) # SetCases (Optimistic cid ns) # ApiPut cid ns #
          (mid @ [SetUpdatingCaseId None])"
    using m by simp
  moreover have "\<forall>a b. ApiPut a b \<notin> set (mid @ [SetUpdatingCaseId None])"
    using n by simp
  ultimately show "\<exists>rest. fst (handleUpdateStatus sel (Some cid) ns pr gr) =
          SetUpdatingCaseId (Some cid) # SetCases (Optimistic cid ns) # ApiPut cid ns # rest \<and>
          (\<forall>a b. ApiPut a b \<notin> set rest)"
    by blast
next
  assume h: "cid \<noteq> [] \<and> (\<forall>c\<in>set (cases st). defined c)"
  then have d: "\<forall>c\<in>set (cases st). defined c"
    by simp
  obtain mid where
    m: "fst (handleUpdateStatus sel (Some cid) ns pr gr) =
          [SetUpdatingCaseId (Some cid), SetCases (Optimistic cid ns), ApiPut cid ns] @ mid @
          [SetUpdatingCaseId None]"
    using h handle_shape by blast
  let ?cs = "map (optimistic_record cid ns) (cases st)"
  have "first_call (fst (handleUpdateStatus sel (Some cid) ns pr gr)) [] st =
          Inr (Some (ApiPut cid ns, st, st\<lparr>updatingCaseId := Some cid, cases := ?cs\<rparr>))"
    unfolding m using optimistic_defined [OF d, of cid ns] by simp
  moreover have "length ?cs = length (cases st)"
    by simp
  moreover have "\<forall>i<length (cases st). own_prop (cases st ! i) ''_id'' = Str cid \<longrightarrow>
             own_prop (?cs ! i) ''status'' = ns"
    by (simp add: optimistic_record_status)
  ultimately show "\<exists>cs'. first_call (fst (handleUpdateStatus sel (Some cid) ns pr gr)) [] st =
          Inr (Some (ApiPut cid ns, st, st\<lparr>updatingCaseId := Some cid, cases := cs'\<rparr>)) \<and>
          length cs' = length (cases st) \<and>
          (\<forall>i<length (cases st). own_prop (cases st ! i) ''_id'' = Str cid \<longrightarrow>
             own_prop (cs' ! i) ''status'' = ns)"
    by blast
qed

theorem handleUpdateStatus_order_witness:
  "handleUpdateStatus Null None (Str ''Closed'') (Inl RequestFailed) (Inl RequestFailed) = ([], Inr ()) \<and>
   ''c1'' \<noteq> [] \<and>
   (\<exists>rest. fst (handleUpdateStatus Null (Some ''c1'') (Str ''Closed'') (Inl RequestFailed) (Inl RequestFailed)) =
      SetUpdatingCaseId (Some ''c1'') # SetCases (Optimistic ''c1'' (Str ''Closed'')) #
      ApiPut ''c1'' (Str ''Closed'') # rest) \<and>
   defined (Obj [(''_id'', Str ''c1''), (''status'', Str ''Pending'')]) \<and>
   defined (Obj [(''_id'', Str ''c2'')]) \<and>
   (\<exists>cs'. first_call
        (fst (handleUpdateStatus Null (Some ''c1'') (Str ''Closed'') (Inl RequestFailed) (Inl RequestFailed)))
        []
        \<lparr>cases = [Obj [(''_id'', Str ''c1''), (''status'', Str ''Pending'')], Obj [(''_id'', Str ''c2'')]],
         selectedCase = Null, updatingCaseId = None\<rparr> =
      Inr (Some (ApiPut ''c1'' (Str ''Closed''),
        \<lparr>cases = [Obj [(''_id'', Str ''c1''), (''status'', Str ''Pending'')], Obj [(''_id'', Str ''c2'')]],
         selectedCase = Null, updatingCaseId = None\<rparr>,
        \<lparr>cases = cs', selectedCase = Null, updatingCaseId = Some ''c1''\<rparr>)) \<and>
      own_prop (cs' ! 0) ''status'' = Str ''Closed'')"
proof -
  let ?cs = "[Obj [(''_id'', Str ''c1''), (''status'', Str ''Pending'')], Obj [(''_id'', Str ''c2'')]]"
  let ?st = "\<lparr>cases = ?cs, selectedCase = Null, updatingCaseId = None\<rparr>"
  note t = handleUpdateStatus_order [where caseId = None and sel = Null and ns = "Str ''Closed''"
      and pr = "Inl RequestFailed" and gr = "Inl RequestFailed" and cid = "''c1''" and st = ?st]
  have h: "\<forall>c\<in>set ?cs. defined c"
    by (simp add: defined_def)
  have a: "handleUpdateStatus Null None (Str ''Closed'') (Inl RequestFailed) (Inl RequestFailed) = ([], Inr ())"
    using t by simp
  have b: "\<exists>rest. fst (handleUpdateStatus Null (Some ''c1'') (Str ''Closed'') (Inl RequestFailed) (Inl RequestFailed)) =
      SetUpdatingCaseId (Some ''c1'') # SetCases (Optimistic ''c1'' (Str ''Closed'')) #
      ApiPut ''c1'' (Str ''Closed'') # rest"
    using t by blast
  have i: "own_prop (?cs ! 0) ''_id'' = Str ''c1''"
    by (simp add: lookup_def)
  obtain cs' where "first_call
        (fst (handleUpdateStatus Null (Some ''c1'') (Str ''Closed'') (Inl RequestFailed) (Inl RequestFailed)))
        [] ?st =
      Inr (Some (ApiPut ''c1'' (Str ''Closed''), ?st, ?st\<lparr>updatingCaseId := Some ''c1'', cases := cs'\<rparr>))"
    and "\<forall>i<length ?cs. own_prop (?cs ! i) ''_id'' = Str ''c1'' \<longrightarrow> own_prop (cs' ! i) ''status'' = Str ''Closed''"
    using t h by auto
  then have c: "\<exists>cs'. first_call
        (fst (handleUpdateStatus Null (Some ''c1'') (Str ''Closed'') (Inl RequestFailed) (Inl RequestFailed)))
        [] ?st =
      Inr (Some (ApiPut ''c1'' (Str ''Closed''), ?st,
        \<lparr>cases = cs', selectedCase = Null, updatingCaseId = Some ''c1''\<rparr>)) \<and>
      own_prop (cs' ! 0) ''status'' = Str ''Closed''"
    using i by auto
  show ?thesis
    using a b c by (simp add: defined_def)
qed

text \<open>
  Claim C4. When the remote update call fails the whole collection is reloaded from
  the remote service and replaces the optimistic one; when the reload fails as well
  the optimistic collection stays; and in every outcome (success, no extractable
  record, failed update, failed reload) the last effect of the handler clears the
  in-flight marker, and no exception leaves the handler.
\<close>

theorem handleUpdateStatus_failure:
  "cid \<noteq> [] \<longrightarrow>
     fst (handleUpdateStatus sel (Some cid) ns (Inl e) (Inr d)) =
       [SetUpdatingCaseId (Some cid), SetCases (Optimistic cid ns), ApiPut cid ns, ConsoleError,
        ApiGet, SetCases (Replaced (array_or_empty d)), Alert, SetUpdatingCaseId None] \<and>
     fst (handleUpdateStatus sel (Some cid) ns (Inl e) (Inl e')) =
       [SetUpdatingCaseId (Some cid), SetCases (Optimistic cid ns), ApiPut cid ns, ConsoleError,
        ApiGet, ConsoleError, Alert, SetUpdatingCaseId None] \<and>
     (apply_cases_update (Optimistic cid ns) (cases st) = Inr cs' \<longrightarrow>
        run_effects (fst (handleUpdateStatus sel (Some cid) ns (Inl e) (Inr d))) st =
          Inr (st\<lparr>cases := array_or_empty d, updatingCaseId := None\<rparr>) \<and>
        run_effects (fst (handleUpdateStatus sel (Some cid) ns (Inl e) (Inl e'))) st =
          Inr (st\<lparr>cases := cs', updatingCaseId := None\<rparr>)) \<and>
     snd (handleUpdateStatus sel (Some cid) ns pr gr) = Inr () \<and>
     (\<exists>es. fst (handleUpdateStatus sel (Some cid) ns pr gr) = es @ [SetUpdatingCaseId None]) \<and>
     (\<forall>st'. run_effects (fst (handleUpdateStatus sel (Some cid) ns pr gr)) st = Inr st' \<longrightarrow>
        updatingCaseId st' = None)"
proof
  assume c: "cid \<noteq> []"
  obtain mid where
    m: "fst (handleUpdateStatus sel (Some cid) ns pr gr) =
          ([SetUpdatingCaseId (Some cid), SetCases (Optimistic cid ns), ApiPut cid ns] @ mid) @
          [SetUpdatingCaseId None]"
    and s: "snd (handleUpdateStatus sel (Some cid) ns pr gr) = Inr ()"
    using handle_shape [OF c, of sel ns pr gr] by auto
  have last: "updatingCaseId st' = None"
    if "run_effects (fst (handleUpdateStatus sel (Some cid) ns pr gr)) st = Inr st'" for st'
  proof -
    let ?es = "[SetUpdatingCaseId (Some cid), SetCases (Optimistic cid ns), ApiPut cid ns] @ mid"
    have "bind_err (run_effects ?es st) (run_effects [SetUpdatingCaseId None]) = Inr st'"
      using that unfolding m run_effects_append .
    then obtain st1 where "run_effects [SetUpdatingCaseId None] st1 = Inr st'"
      by (cases "run_effects ?es st") auto
    then show ?thesis
      by auto
  qed
  have reload: "run_effects (fst (handleUpdateStatus sel (Some cid) ns (Inl e) (Inr d))) st =
          Inr (st\<lparr>cases := array_or_empty d, updatingCaseId := None\<rparr>) \<and>
        run_effects (fst (handleUpdateStatus sel (Some cid) ns (Inl e) (Inl e'))) st =
          Inr (st\<lparr>cases := cs', updatingCaseId := None\<rparr>)"
    if "apply_cases_update (Optimistic cid ns) (cases st) = Inr cs'"
    using that c by (simp add: handle_failed)
  show "fst (handleUpdateStatus sel (Some cid) ns (Inl e) (Inr d)) =
       [SetUpdatingCaseId (Some cid), SetCases (Optimistic cid ns), ApiPut cid ns, ConsoleError,
        ApiGet, SetCases (Replaced (array_or_empty d)), Alert, SetUpdatingCaseId None] \<and>
     fst (handleUpdateStatus sel (Some cid) ns (Inl e) (Inl e')) =
       [SetUpdatingCaseId (Some cid), SetCases (Optimistic cid ns), ApiPut cid ns, ConsoleError,
        ApiGet, ConsoleError, Alert, SetUpdatingCaseId None] \<and>
     (apply_cases_update (Optimistic cid ns) (cases st) = Inr cs' \<longrightarrow>
        run_effects (fst (handleUpdateStatus sel (Some cid) ns (Inl e) (Inr d))) st =
          Inr (st\<lparr>cases := array_or_empty d, updatingCaseId := None\<rparr>) \<and>
        run_effects (fst (handleUpdateStatus sel (Some cid) ns (Inl e) (Inl e'))) st =
          Inr (st\<lparr>cases := cs', updatingCaseId := None\<rparr>)) \<and>
     snd (handleUpdateStatus sel (Some cid) ns pr gr) = Inr () \<and>
     (\<exists>es. fst (handleUpdateStatus sel (Some cid) ns pr gr) = es @ [SetUpdatingCaseId None]) \<and>
     (\<forall>st'. run_effects (fst (handleUpdateStatus sel (Some cid) ns pr gr)) st = Inr st' \<longrightarrow>
        updatingCaseId st' = None)"
    using c m s last reload by (simp add: handle_failed)
qed

theorem handleUpdateStatus_failure_witness:
  "''c1'' \<noteq> [] \<and>
   apply_cases_update (Optimistic ''c1'' (Str ''Closed''))
       [Obj [(''_id'', Str ''c1''), (''status'', Str ''Pending'')]] =
     Inr [Obj [(''_id'', Str ''c1''), (''status'', Str ''Closed'')]] \<and>
   run_effects (fst (handleUpdateStatus Null (Some ''c1'') (Str ''Closed'') (Inl RequestFailed)
        (Inr (Arr [Obj [(''_id'', Str ''c1''), (''status'', Str ''Assigned'')]]))))
       \<lparr>cases = [Obj [(''_id'', Str ''c1''), (''status'', Str ''Pending'')]], selectedCase = Null,
        updatingCaseId = None\<rparr> =
     Inr \<lparr>cases = [Obj [(''_id'', Str ''c1''), (''status'', Str ''Assigned'')]], selectedCase = Null,
          updatingCaseId = None\<rparr> \<and>
   run_effects (fst (handleUpdateStatus Null (Some ''c1'') (Str ''Closed'') (Inl RequestFailed)
        (Inl RequestFailed)))
       \<lparr>cases = [Obj [(''_id'', Str ''c1''), (''status'', Str ''Pending'')]], selectedCase = Null,
        updatingCaseId = None\<rparr> =
     Inr \<lparr>cases = [Obj [(''_id'', Str ''c1''), (''status'', Str ''Closed'')]], selectedCase = Null,
          updatingCaseId = None\<rparr> \<and>
   snd (handleUpdateStatus Null (Some ''c1'') (Str ''Closed'')
        (Inr (Obj [(''_id'', Str ''c1''), (''status'', Str ''Closed'')])) (Inl RequestFailed)) = Inr ()"
proof -
  let ?cs = "[Obj [(''_id'', Str ''c1''), (''status'', Str ''Pending'')]]"
  let ?st = "\<lparr>cases = ?cs, selectedCase = Null, updatingCaseId = None\<rparr>"
  have c: "''c1'' \<noteq> []"
    by simp
  have h: "apply_cases_update (Optimistic ''c1'' (Str ''Closed'')) (cases ?st) =
      Inr [Obj [(''_id'', Str ''c1''), (''status'', Str ''Closed'')]]"
    by (simp add: optimistic_case_def get_prop_def lookup_def define_prop_def)
  note t = handleUpdateStatus_failure [where cid = "''c1''" and sel = Null and ns = "Str ''Closed''"
      and e = RequestFailed and e' = RequestFailed and st = ?st
      and d = "Arr [Obj [(''_id'', Str ''c1''), (''status'', Str ''Assigned'')]]"
      and cs' = "[Obj [(''_id'', Str ''c1''), (''status'', Str ''Closed'')]]"
      and pr = "Inr (Obj [(''_id'', Str ''c1''), (''status'', Str ''Closed'')])"
      and gr = "Inl RequestFailed"]
  show ?thesis
    using t c h by (simp add: array_or_empty_def)
qed

text \<open>
  Claim C5. The extraction returns the response body itself when it carries an
  identifier; otherwise the value under the first of the wrapper keys \<open>case\<close>, \<open>data\<close>,
  \<open>result\<close>, \<open>payload\<close>, in that order, that holds an object carrying an identifier;
  otherwise the first object-shaped value among the own values of the body that
  carries an identifier; otherwise it yields no result, and then the handler leaves
  the optimistic collection as it is: after the update call it only logs a warning
  and clears the marker. Carrying an identifier is the test of the code: a truthy
  \<open>_id\<close> or \<open>id\<close>.
\<close>

theorem extractUpdatedCase_strategy:
  "(carries_id data \<longrightarrow> extractUpdatedCase data = Inr data) \<and>
   (\<not> carries_id data \<and>
      find (\<lambda>k. carries_id (own_prop data k)) [''case'', ''data'', ''result'', ''payload''] = Some k \<longrightarrow>
      extractUpdatedCase data = Inr (own_prop data k)) \<and>
   (\<not> carries_id data \<and>
      find (\<lambda>k. carries_id (own_prop data k)) [''case'', ''data'', ''result'', ''payload''] = None \<and>
      find (\<lambda>v. typeof_object v \<and> carries_id v) (map snd (own_props data)) = Some v \<longrightarrow>
      extractUpdatedCase data = Inr v) \<and>
   (\<not> carries_id data \<and>
      find (\<lambda>k. carries_id (own_prop data k)) [''case'', ''data'', ''result'', ''payload''] = None \<and>
      find (\<lambda>v. typeof_object v \<and> carries_id v) (map snd (own_props data)) = None \<longrightarrow>
      extractUpdatedCase data = Inr Null) \<and>
   (extractUpdatedCase data = Inr Null \<and> cid \<noteq> [] \<longrightarrow>
      handleUpdateStatus sel (Some cid) ns (Inr data) gr =
        ([SetUpdatingCaseId (Some cid), SetCases (Optimistic cid ns), ApiPut cid ns,
          ConsoleWarn, SetUpdatingCaseId None], Inr ()))"
proof (intro conjI impI)
  assume "extractUpdatedCase data = Inr Null \<and> cid \<noteq> []"
  then show "handleUpdateStatus sel (Some cid) ns (Inr data) gr =
        ([SetUpdatingCaseId (Some cid), SetCases (Optimistic cid ns), ApiPut cid ns,
          ConsoleWarn, SetUpdatingCaseId None], Inr ())"
    by (simp add: handle_replied on_reply_no_record)
qed (simp_all add: extract_eq extract_spec_def wrapper_keys_def)

theorem extractUpdatedCase_strategy_witness:
  "extractUpdatedCase (Obj [(''_id'', Str ''c1''), (''status'', Str ''Closed'')])
     = Inr (Obj [(''_id'', Str ''c1''), (''status'', Str ''Closed'')]) \<and>
   extractUpdatedCase (Obj [(''case'', Obj [(''_id'', Str ''c1''), (''status'', Str ''Closed'')])])
     = Inr (Obj [(''_id'', Str ''c1''), (''status'', Str ''Closed'')]) \<and>
   extractUpdatedCase (Obj [(''meta'', Obj [(''_id'', Str ''m'')]), (''data'', Obj [(''_id'', Str ''d'')])])
     = Inr (Obj [(''_id'', Str ''d'')]) \<and>
   extractUpdatedCase (Obj [(''payload'', Obj [(''_id'', Str ''p'')]), (''result'', Obj [(''_id'', Str ''r'')])])
     = Inr (Obj [(''_id'', Str ''r'')]) \<and>
   extractUpdatedCase (Obj [(''meta'', Obj [(''_id'', Str ''m'')]), (''payload'', Obj [(''id'', Str ''p'')])])
     = Inr (Obj [(''id'', Str ''p'')]) \<and>
   extractUpdatedCase (Obj [(''n'', Num 1), (''item'', Obj [(''id'', Num 7)])])
     = Inr (Obj [(''id'', Num 7)]) \<and>
   extractUpdatedCase (Obj [(''unexpected'', Str ''shape'')]) = Inr Null \<and>
   handleUpdateStatus Null (Some ''c1'') (Str ''Closed'')
       (Inr (Obj [(''unexpected'', Str ''shape'')])) (Inl RequestFailed) =
     ([SetUpdatingCaseId (Some ''c1''), SetCases (Optimistic ''c1'' (Str ''Closed'')),
       ApiPut ''c1'' (Str ''Closed''), ConsoleWarn, SetUpdatingCaseId None], Inr ())"
proof -
  let ?c1 = "Obj [(''_id'', Str ''c1''), (''status'', Str ''Closed'')]"
  let ?w = "Obj [(''case'', ?c1)]"
  let ?d = "Obj [(''meta'', Obj [(''_id'', Str ''m'')]), (''data'', Obj [(''_id'', Str ''d'')])]"
  let ?r = "Obj [(''payload'', Obj [(''_id'', Str ''p'')]), (''result'', Obj [(''_id'', Str ''r'')])]"
  let ?p = "Obj [(''meta'', Obj [(''_id'', Str ''m'')]), (''payload'', Obj [(''id'', Str ''p'')])]"
  let ?n = "Obj [(''n'', Num 1), (''item'', Obj [(''id'', Num 7)])]"
  let ?u = "Obj [(''unexpected'', Str ''shape'')]"
  let ?keys = "[''case'', ''data'', ''result'', ''payload'']"
  have h1: "carries_id ?c1"
    by code_simp
  have h2: "\<not> carries_id ?w \<and> find (\<lambda>k. carries_id (own_prop ?w k)) ?keys = Some ''case''"
    by code_simp
  have h2d: "\<not> carries_id ?d \<and> find (\<lambda>k. carries_id (own_prop ?d k)) ?keys = Some ''data''"
    by code_simp
  have h2r: "\<not> carries_id ?r \<and> find (\<lambda>k. carries_id (own_prop ?r k)) ?keys = Some ''result''"
    by code_simp
  have h2p: "\<not> carries_id ?p \<and> find (\<lambda>k. carries_id (own_prop ?p k)) ?keys = Some ''payload''"
    by code_simp
  have h3: "\<not> carries_id ?n \<and> find (\<lambda>k. carries_id (own_prop ?n k)) ?keys = None \<and>
      find (\<lambda>v. typeof_object v \<and> carries_id v) (map snd (own_props ?n)) = Some (Obj [(''id'', Num 7)])"
    by code_simp
  have h4: "\<not> carries_id ?u \<and> find (\<lambda>k. carries_id (own_prop ?u k)) ?keys = None \<and>
      find (\<lambda>v. typeof_object v \<and> carries_id v) (map snd (own_props ?u)) = None"
    by code_simp
  have w: "own_prop ?w ''case'' = ?c1" "own_prop ?d ''data'' = Obj [(''_id'', Str ''d'')]"
    "own_prop ?r ''result'' = Obj [(''_id'', Str ''r'')]"
    "own_prop ?p ''payload'' = Obj [(''id'', Str ''p'')]"
    by code_simp+
  have a1: "extractUpdatedCase ?c1 = Inr ?c1"
    using extractUpdatedCase_strategy [of ?c1] h1 by blast
  have a2: "extractUpdatedCase ?w = Inr ?c1"
    using extractUpdatedCase_strategy [of ?w "''case''"] h2 w(1) by simp
  have a2d: "extractUpdatedCase ?d = Inr (Obj [(''_id'', Str ''d'')])"
    using extractUpdatedCase_strategy [of ?d "''data''"] h2d w(2) by simp
  have a2r: "extractUpdatedCase ?r = Inr (Obj [(''_id'', Str ''r'')])"
    using extractUpdatedCase_strategy [of ?r "''result''"] h2r w(3) by simp
  have a2p: "extractUpdatedCase ?p = Inr (Obj [(''id'', Str ''p'')])"
    using extractUpdatedCase_strategy [of ?p "''payload''"] h2p w(4) by simp
  have a3: "extractUpdatedCase ?n = Inr (Obj [(''id'', Num 7)])"
    using extractUpdatedCase_strategy [of ?n _ "Obj [(''id'', Num 7)]"] h3 by blast
  have a4: "extractUpdatedCase ?u = Inr Null"
    using extractUpdatedCase_strategy [of ?u] h4 by blast
  have a5: "handleUpdateStatus Null (Some ''c1'') (Str ''Closed'') (Inr ?u) (Inl RequestFailed) =
     ([SetUpdatingCaseId (Some ''c1''), SetCases (Optimistic ''c1'' (Str ''Closed'')),
       ApiPut ''c1'' (Str ''Closed''), ConsoleWarn, SetUpdatingCaseId None], Inr ())"
    using extractUpdatedCase_strategy [of ?u _ _ "''c1''" Null "Str ''Closed''" "Inl RequestFailed"] a4
    by simp
  show ?thesis
    using a1 a2 a2d a2r a2p a3 a4 a5 by simp
qed

text \<open>
  Claim C6. From a collection of at least seven records the recent-cases derivation
  returns exactly six, from six or fewer it returns all of them; the result is in
  descending order of the creation time, and records of equal creation time keep
  their input order.

  The code misses the record without a valid creation date, which the table of the
  component expects (it prints a dash for it): \<open>new Date(undefined)\<close> is an invalid
  date, the comparator yields \<open>NaN\<close> wherever this record takes part, and the sort no
  longer orders the dated records. For the collection below, of a record of 1
  January, a record without \<open>createdAt\<close> and a record of 2 January, the order is left
  to the implementation, and the input order, with the older record first, is among
  the results.
\<close>

theorem recentCases_missing_createdAt:
  "recentCases sample_parse
     [Obj [(''_id'', Str ''a''), (''createdAt'', Str ''2024-01-01T00:00:00.000Z'')],
      Obj [(''_id'', Str ''m'')],
      Obj [(''_id'', Str ''b''), (''createdAt'', Str ''2024-01-02T00:00:00.000Z'')]] =
   AnyOrder
     [Obj [(''_id'', Str ''a''), (''createdAt'', Str ''2024-01-01T00:00:00.000Z'')],
      Obj [(''_id'', Str ''m'')],
      Obj [(''_id'', Str ''b''), (''createdAt'', Str ''2024-01-02T00:00:00.000Z'')]] \<and>
   may_return
     (recentCases sample_parse
        [Obj [(''_id'', Str ''a''), (''createdAt'', Str ''2024-01-01T00:00:00.000Z'')],
         Obj [(''_id'', Str ''m'')],
         Obj [(''_id'', Str ''b''), (''createdAt'', Str ''2024-01-02T00:00:00.000Z'')]])
     [Obj [(''_id'', Str ''a''), (''createdAt'', Str ''2024-01-01T00:00:00.000Z'')],
      Obj [(''_id'', Str ''m'')],
      Obj [(''_id'', Str ''b''), (''createdAt'', Str ''2024-01-02T00:00:00.000Z'')]] \<and>
   created_time sample_parse
     (Obj [(''_id'', Str ''a''), (''createdAt'', Str ''2024-01-01T00:00:00.000Z'')]) =
     Inr (Some 1704067200000) \<and>
   created_time sample_parse (Obj [(''_id'', Str ''m'')]) = Inr None \<and>
   created_time sample_parse
     (Obj [(''_id'', Str ''b''), (''createdAt'', Str ''2024-01-02T00:00:00.000Z'')]) =
     Inr (Some 1704153600000)"
  by code_simp

text \<open>
  Claim C7. Doctor lookup over a collection of doctor records returns the reference
  itself when it is an embedded object; the first record whose \<open>_id\<close> or \<open>id\<close> is the
  reference when it is a string identifier found in the collection; the placeholder
  with name \<open>Doctor\<close> and empty specialization when it is a string identifier not
  found; and no result (\<open>null\<close>) when the reference is absent. The lookup is a
  function of its arguments and changes neither. A reference is absent when the
  guard \<open>!assignedDoctorId\<close> holds; a string identifier is a non-empty string.
\<close>

theorem getAssignedDoctor_cases:
  assumes "\<forall>d\<in>set doctors. defined d"
  shows "getAssignedDoctor doctors (Obj ps) = Inr (Obj ps) \<and>
         (s \<noteq> [] \<and> doctors = pre @ d # post \<and> (\<forall>x\<in>set pre. \<not> matches_id s x) \<and> matches_id s d \<longrightarrow>
            getAssignedDoctor doctors (Str s) = Inr d) \<and>
         (s \<noteq> [] \<and> (\<forall>x\<in>set doctors. \<not> matches_id s x) \<longrightarrow>
            getAssignedDoctor doctors (Str s) =
              Inr (Obj [(''name'', Str ''Doctor''), (''specialization'', Str [])])) \<and>
         (\<not> truthy r \<longrightarrow> getAssignedDoctor doctors r = Inr Null) \<and>
         getAssignedDoctor doctors Undefined = Inr Null \<and>
         getAssignedDoctor doctors Null = Inr Null"
proof (intro conjI impI)
  assume a: "s \<noteq> [] \<and> doctors = pre @ d # post \<and> (\<forall>x\<in>set pre. \<not> matches_id s x) \<and> matches_id s d"
  then have "find (matches_id s) doctors = Some d"
    using find_first [of pre "matches_id s" d post] by simp
  then show "getAssignedDoctor doctors (Str s) = Inr d"
    using a getAssignedDoctor_string [OF assms, of s] by simp
next
  assume a: "s \<noteq> [] \<and> (\<forall>x\<in>set doctors. \<not> matches_id s x)"
  then have "find (matches_id s) doctors = None"
    by (simp add: find_None_iff)
  then show "getAssignedDoctor doctors (Str s) =
      Inr (Obj [(''name'', Str ''Doctor''), (''specialization'', Str [])])"
    using a getAssignedDoctor_string [OF assms, of s] by (simp add: placeholder_def)
qed (simp_all add: getAssignedDoctor_def)

theorem getAssignedDoctor_cases_witness:
  "defined (Obj [(''_id'', Str ''d1''), (''name'', Str ''Dr. A'')]) \<and>
   getAssignedDoctor [Obj [(''_id'', Str ''d1''), (''name'', Str ''Dr. A'')]] (Str ''d1'') =
     Inr (Obj [(''_id'', Str ''d1''), (''name'', Str ''Dr. A'')]) \<and>
   getAssignedDoctor [Obj [(''_id'', Str ''d1''), (''name'', Str ''Dr. A'')]] (Str ''dX'') =
     Inr (Obj [(''name'', Str ''Doctor''), (''specialization'', Str [])]) \<and>
   getAssignedDoctor [Obj [(''_id'', Str ''d1''), (''name'', Str ''Dr. A'')]] Undefined = Inr Null"
proof -
  let ?d = "Obj [(''_id'', Str ''d1''), (''name'', Str ''Dr. A'')]"
  have h: "\<forall>d\<in>set [?d]. defined d"
    by (simp add: defined_def)
  have m: "matches_id ''d1'' ?d" "\<forall>x\<in>set [?d]. \<not> matches_id ''dX'' x"
    by (simp_all add: matches_id_def lookup_def)
  have a: "getAssignedDoctor [?d] (Str ''d1'') = Inr ?d"
    using getAssignedDoctor_cases [OF h, of _ "''d1''" "[]" ?d "[]"] m(1) by simp
  have b: "getAssignedDoctor [?d] (Str ''dX'') =
      Inr (Obj [(''name'', Str ''Doctor''), (''specialization'', Str [])])"
    using getAssignedDoctor_cases [OF h, of _ "''dX''"] m(2) by simp
  have c: "getAssignedDoctor [?d] Undefined = Inr Null"
    using getAssignedDoctor_cases [OF h] by blast
  show ?thesis
    using a b c by (simp add: defined_def)
qed

text \<open>
  Claim C8. The status filter derived from the query parameter is \<open>All\<close> when the
  parameter is absent, the member of the fixed statuses that equals the parameter up
  to letter case when there is one, and \<open>All\<close> when no member matches; the
  derivation has no failing branch.
\<close>

theorem sync_tab_filter:
  "sync_tab None = ''All'' \<and>
   (s \<in> set STATUSES \<and> toLowerCase p = toLowerCase s \<longrightarrow> sync_tab (Some p) = s) \<and>
   ((\<forall>t\<in>set STATUSES. toLowerCase p \<noteq> toLowerCase t) \<longrightarrow> sync_tab (Some p) = ''All'')"
  using sync_tab_match [of s p] sync_tab_no_match [of p] by (simp add: sync_tab_def)

theorem sync_tab_filter_witness:
  "''In Progress'' \<in> set STATUSES \<and> toLowerCase ''in PROGRESS'' = toLowerCase ''In Progress'' \<and>
   sync_tab (Some ''in PROGRESS'') = ''In Progress'' \<and>
   toLowerCase ''Rejected'' \<notin> set (map toLowerCase STATUSES) \<and>
   sync_tab (Some ''Rejected'') = ''All''"
proof -
  have h1: "''In Progress'' \<in> set STATUSES \<and> toLowerCase ''in PROGRESS'' = toLowerCase ''In Progress''"
    by code_simp
  have h2: "\<forall>t\<in>set STATUSES. toLowerCase ''Rejected'' \<noteq> toLowerCase t"
    by code_simp
  have a: "sync_tab (Some ''in PROGRESS'') = ''In Progress''"
    using sync_tab_filter [of "''In Progress''" "''in PROGRESS''"] h1 by blast
  have b: "sync_tab (Some ''Rejected'') = ''All''"
    using sync_tab_filter [of _ "''Rejected''"] h2 by blast
  have h3: "toLowerCase ''Rejected'' \<notin> set (map toLowerCase STATUSES)"
    using h2 by auto
  show ?thesis
    using h1 h3 a b by blast
qed

text \<open>
  Claim C9. The optimistic rewrite of a collection of records keeps the length of
  the collection and the place of every record; a record whose \<open>_id\<close> differs from
  the given identifier is the same afterwards; a record whose \<open>_id\<close> is the identifier
  has the new status afterwards, and its properties other than \<open>status\<close> are the same,
  in the same order.
\<close>

theorem optimistic_rewrite_frame:
  assumes "\<forall>c\<in>set prev. defined c"
  shows "\<exists>res. apply_cases_update (Optimistic cid ns) prev = Inr res \<and>
           length res = length prev \<and>
           (\<forall>i<length prev.
              (own_prop (prev ! i) ''_id'' \<noteq> Str cid \<longrightarrow> res ! i = prev ! i) \<and>
              (own_prop (prev ! i) ''_id'' = Str cid \<longrightarrow>
                 (\<exists>ps qs. prev ! i = Obj ps \<and> res ! i = Obj qs \<and> lookup qs ''status'' = ns \<and>
                    filter (\<lambda>p. fst p \<noteq> ''status'') qs = filter (\<lambda>p. fst p \<noteq> ''status'') ps)))"
proof -
  let ?res = "map (optimistic_record cid ns) prev"
  have "apply_cases_update (Optimistic cid ns) prev = Inr ?res"
    using assms by (rule optimistic_defined)
  moreover have "length ?res = length prev"
    by simp
  moreover have "\<forall>i<length prev.
              (own_prop (prev ! i) ''_id'' \<noteq> Str cid \<longrightarrow> ?res ! i = prev ! i) \<and>
              (own_prop (prev ! i) ''_id'' = Str cid \<longrightarrow>
                 (\<exists>ps qs. prev ! i = Obj ps \<and> ?res ! i = Obj qs \<and> lookup qs ''status'' = ns \<and>
                    filter (\<lambda>p. fst p \<noteq> ''status'') qs = filter (\<lambda>p. fst p \<noteq> ''status'') ps))"
    using optimistic_record_match [of _ cid ns] by (simp add: optimistic_record_other)
  ultimately show ?thesis
    by blast
qed

theorem optimistic_rewrite_frame_witness:
  "defined (Obj [(''_id'', Str ''c1''), (''status'', Str ''Pending''), (''title'', Str ''t'')]) \<and>
   defined (Obj [(''_id'', Str ''c2'')]) \<and>
   (\<exists>res. apply_cases_update (Optimistic ''c1'' (Str ''Closed''))
        [Obj [(''_id'', Str ''c1''), (''status'', Str ''Pending''), (''title'', Str ''t'')],
         Obj [(''_id'', Str ''c2'')]] = Inr res \<and>
      length res = 2 \<and> res ! 1 = Obj [(''_id'', Str ''c2'')] \<and>
      own_prop (res ! 0) ''status'' = Str ''Closed'')"
proof -
  let ?cs = "[Obj [(''_id'', Str ''c1''), (''status'', Str ''Pending''), (''title'', Str ''t'')],
              Obj [(''_id'', Str ''c2'')]]"
  have h: "\<forall>c\<in>set ?cs. defined c"
    by (simp add: defined_def)
  obtain res where r: "apply_cases_update (Optimistic ''c1'' (Str ''Closed'')) ?cs = Inr res"
    "length res = length ?cs"
    "\<forall>i<length ?cs.
        (own_prop (?cs ! i) ''_id'' \<noteq> Str ''c1'' \<longrightarrow> res ! i = ?cs ! i) \<and>
        (own_prop (?cs ! i) ''_id'' = Str ''c1'' \<longrightarrow>
           (\<exists>ps qs. ?cs ! i = Obj ps \<and> res ! i = Obj qs \<and> lookup qs ''status'' = Str ''Closed'' \<and>
              filter (\<lambda>p. fst p \<noteq> ''status'') qs = filter (\<lambda>p. fst p \<noteq> ''status'') ps))"
    using optimistic_rewrite_frame [OF h, of "''c1''" "Str ''Closed''"] by blast
  have "own_prop (?cs ! 1) ''_id'' \<noteq> Str ''c1''" "own_prop (?cs ! 0) ''_id'' = Str ''c1''"
    by (simp_all add: lookup_def)
  then have "res ! 1 = Obj [(''_id'', Str ''c2'')]" "own_prop (res ! 0) ''status'' = Str ''Closed''"
    using r(3) by (auto simp: numeral_2_eq_2)
  then show ?thesis
    using r(1,2) by (simp add: defined_def)
qed

text \<open>
  Claim C10. The extraction is total: for every input value it returns an object or no
  result (\<open>null\<close>) and never throws; \<open>null\<close> and \<open>undefined\<close> are caught by the guard,
  and an input that is not an object passes every probe and yields no result.
\<close>

theorem extractUpdatedCase_total:
  "(\<exists>r. extractUpdatedCase data = Inr r \<and> (r = Null \<or> (\<exists>ps. r = Obj ps))) \<and>
   (data = Null \<or> \<not> typeof_object data \<longrightarrow> extractUpdatedCase data = Inr Null)"
  using extract_spec_result [of data] extract_spec_primitive [of data]
  by (auto simp: extract_eq)

theorem extractUpdatedCase_total_witness:
  "\<not> typeof_object (Str ''abc'') \<and> extractUpdatedCase (Str ''abc'') = Inr Null \<and>
   extractUpdatedCase Undefined = Inr Null"
  using extractUpdatedCase_total [of "Str ''abc''"] extractUpdatedCase_total [of Undefined]
  by simp

end
